theory Spec2Isabelle
  imports Main
begin

section \<open>Raw memory, element types and outcomes\<close>

text \<open>
  The development embeds \<^verbatim>\<open>advanced-vector/vector.h\<close>: the class templates
  \<^verbatim>\<open>RawMemory<T>\<close> and \<^verbatim>\<open>Vector<T>\<close>.

  A \<^verbatim>\<open>RawMemory<T>\<close> holds the pointer \<^verbatim>\<open>buffer_\<close> to a block of memory and the
  number \<^verbatim>\<open>capacity_\<close>. The block is modelled by its contents, a list of the element
  slots that fit into it: a slot is either raw (no object lives there) or holds a live
  object of type \<^verbatim>\<open>T\<close>. A pointer \<^verbatim>\<open>buffer_ + i\<close> is the index \<open>i\<close>, and an
  access is inside the block when \<open>i\<close> is below the length of the list.
  \<^verbatim>\<open>capacity_\<close> is a number of its own: \<^verbatim>\<open>Allocate(n)\<close> asks for
  \<^verbatim>\<open>n * sizeof(T)\<close> bytes, a product in \<^verbatim>\<open>size_t\<close>, so the block can be smaller
  than \<open>n\<close> slots. \<^verbatim>\<open>size_t\<close> has 64 bits. Sizes are natural numbers, and the
  modulus is written out where the source multiplies a number that its caller chooses.
\<close>

datatype 'a slot = Raw | Live 'a

type_synonym 'a buffer = "'a slot list"

text \<open>
  The element type \<^verbatim>\<open>T\<close> is a template parameter. What the container needs from
  it are the two traits tested by \<^verbatim>\<open>if constexpr\<close>, whether it has a move
  constructor, its size, and the behaviour of its special member functions: for which
  source value each of them throws, and the state \<open>moved_from\<close> in which the move
  constructor and the assignment from an rvalue leave their source. A constructor or
  assignment that does not throw gives the target the value of its source. \<open>alloc_fails n\<close> says that the call of \<^verbatim>\<open>operator new\<close> made for \<open>n\<close>
  elements throws \<^verbatim>\<open>std::bad_alloc\<close>. A type whose move constructor is
  \<^verbatim>\<open>noexcept\<close> has \<open>move_throws\<close> false for every value; the operations do not
  rely on it, and the statements say so where they need it.
\<close>

record 'a T_traits =
  is_nothrow_move_constructible :: bool
  is_copy_constructible :: bool
  has_move_ctor :: bool
  sizeof_T :: nat
  copy_throws :: "'a \<Rightarrow> bool"
  move_throws :: "'a \<Rightarrow> bool"
  ctor_throws :: "'a \<Rightarrow> bool"
  copy_assign_throws :: "'a \<Rightarrow> bool"
  move_assign_throws :: "'a \<Rightarrow> bool"
  moved_from :: "'a \<Rightarrow> 'a"
  alloc_fails :: "nat \<Rightarrow> bool"

text \<open>
  Every call that the container makes on the allocator or on an element is recorded as
  an event, in program order. Element events carry the place of the object (the index
  of its slot within its buffer, or a local variable of the operation) and the value
  constructed, assigned from, or destroyed.
\<close>

datatype place = Slot nat | Temporary

datatype 'a event =
    Allocate nat
  | Deallocate nat
  | Ctor place 'a
  | CopyCtor place 'a
  | MoveCtor place 'a
  | CopyAssign place 'a
  | MoveAssign place 'a
  | Dtor place 'a

datatype exn = bad_alloc | elem_exn

text \<open>
  Undefined behaviour and failed \<^verbatim>\<open>assert\<close>s are faults: an access outside the
  allocation, the use of a raw slot as an object, an iterator argument outside the
  range the operation requires, \<^verbatim>\<open>PopBack\<close> on an empty vector, and a reference to
  no object.
\<close>

datatype fault = OutOfBounds nat | Uninitialized nat | InvalidIterator nat | EmptyVector | Dangling nat

text \<open>
  An operation returns normally with a result, propagates an exception leaving a state
  behind, or faults. The first two carry the events of the call.
\<close>

datatype ('r, 's, 'a) outcome =
    Ok 'r "'a event list"
  | Threw exn 's "'a event list"
  | Fault fault

definition read :: "'a buffer \<Rightarrow> nat \<Rightarrow> fault + 'a" where
  "read buf i =
     (if i < length buf
      then (case buf ! i of Live x \<Rightarrow> Inr x | Raw \<Rightarrow> Inl (Uninitialized i))
      else Inl (OutOfBounds i))"

text \<open>
  The construction \<^verbatim>\<open>T(std::move(x))\<close> from an rvalue runs the move constructor
  of \<open>T\<close> when it has one. For a type that has a copy constructor and no move
  constructor, overload resolution selects the copy constructor: it throws as a copy
  does, leaves its source as it is, and an instrumented type counts a copy. (A type with
  neither constructor cannot be constructed from an rvalue, and no operation that does
  so compiles.) The trait \<^verbatim>\<open>is_nothrow_move_constructible_v<T>\<close> tests the expression
  \<^verbatim>\<open>T(std::move(x))\<close>, so it is also true of a type without a move constructor whose
  copy constructor is \<^verbatim>\<open>noexcept\<close>.
\<close>

definition rvalue_copies :: "'a T_traits \<Rightarrow> bool" where
  "rvalue_copies tr \<longleftrightarrow> \<not> has_move_ctor tr \<and> is_copy_constructible tr"

definition rvalue_throws :: "'a T_traits \<Rightarrow> 'a \<Rightarrow> bool" where
  "rvalue_throws tr x = (if rvalue_copies tr then copy_throws tr x else move_throws tr x)"

definition rvalue_leaves :: "'a T_traits \<Rightarrow> 'a \<Rightarrow> 'a" where
  "rvalue_leaves tr x = (if rvalue_copies tr then x else moved_from tr x)"

definition rvalue_ctor :: "'a T_traits \<Rightarrow> place \<Rightarrow> 'a \<Rightarrow> 'a event" where
  "rvalue_ctor tr = (if rvalue_copies tr then CopyCtor else MoveCtor)"

text \<open>The three ways in which the source constructs a new element from arguments:
  \<^verbatim>\<open>T(value)\<close> from a \<^verbatim>\<open>const T&\<close>, \<^verbatim>\<open>T(std::move(value))\<close>, and
  \<^verbatim>\<open>T(std::forward<Args>(args)...)\<close> with any other arguments.\<close>

datatype 'a init = FromCopy 'a | FromMove 'a | FromArgs 'a

fun init_value :: "'a init \<Rightarrow> 'a" where
  "init_value (FromCopy x) = x"
| "init_value (FromMove x) = x"
| "init_value (FromArgs x) = x"

fun init_throws :: "'a T_traits \<Rightarrow> 'a init \<Rightarrow> bool" where
  "init_throws tr (FromCopy x) = copy_throws tr x"
| "init_throws tr (FromMove x) = rvalue_throws tr x"
| "init_throws tr (FromArgs x) = ctor_throws tr x"

fun init_event :: "'a T_traits \<Rightarrow> place \<Rightarrow> 'a init \<Rightarrow> 'a event" where
  "init_event tr i (FromCopy x) = CopyCtor i x"
| "init_event tr i (FromMove x) = rvalue_ctor tr i x"
| "init_event tr i (FromArgs x) = Ctor i x"

section \<open>The library algorithms on uninitialized memory\<close>

text \<open>
  \<^verbatim>\<open>std::destroy_n(buf + first, n)\<close> runs the destructor of \<open>n\<close> consecutive
  objects. Destructors do not throw.
\<close>

primrec destroy_n :: "'a buffer \<Rightarrow> nat \<Rightarrow> nat \<Rightarrow> fault + ('a buffer \<times> 'a event list)" where
  "destroy_n buf first 0 = Inr (buf, [])"
| "destroy_n buf first (Suc n) =
     (case read buf first of
        Inl f \<Rightarrow> Inl f
      | Inr x \<Rightarrow>
          (case destroy_n (buf[first := Raw]) (Suc first) n of
             Inl f \<Rightarrow> Inl f
           | Inr (buf', evs) \<Rightarrow> Inr (buf', Dtor (Slot first) x # evs)))"

text \<open>
  \<^verbatim>\<open>std::uninitialized_copy_n(src + first, count, dst + d_first)\<close> copy-constructs
  \<open>count\<close> objects into raw slots. Its loop stops at the first copy that throws; the
  algorithm then destroys the objects it has constructed and rethrows. The loop returns
  the destination and the position \<open>current\<close> it has reached.
\<close>

primrec uninitialized_copy_loop ::
  "'a T_traits \<Rightarrow> 'a buffer \<Rightarrow> nat \<Rightarrow> nat \<Rightarrow> 'a buffer \<Rightarrow> nat \<Rightarrow>
     ('a buffer \<times> nat, 'a buffer \<times> nat, 'a) outcome" where
  "uninitialized_copy_loop tr src first 0 dst current = Ok (dst, current) []"
| "uninitialized_copy_loop tr src first (Suc count) dst current =
     (case read src first of
        Inl f \<Rightarrow> Fault f
      | Inr x \<Rightarrow>
          if length dst \<le> current then Fault (OutOfBounds current)
          else if copy_throws tr x then Threw elem_exn (dst, current) []
          else
            (case uninitialized_copy_loop tr src (Suc first) count
                    (dst[current := Live x]) (Suc current) of
               Ok r evs \<Rightarrow> Ok r (CopyCtor (Slot current) x # evs)
             | Threw e s evs \<Rightarrow> Threw e s (CopyCtor (Slot current) x # evs)
             | Fault f \<Rightarrow> Fault f))"

definition uninitialized_copy_n ::
  "'a T_traits \<Rightarrow> 'a buffer \<Rightarrow> nat \<Rightarrow> nat \<Rightarrow> 'a buffer \<Rightarrow> nat \<Rightarrow>
     ('a buffer, 'a buffer, 'a) outcome" where
  "uninitialized_copy_n tr src first count dst d_first =
     (case uninitialized_copy_loop tr src first count dst d_first of
        Ok (dst', current) evs \<Rightarrow> Ok dst' evs
      | Threw e (dst', current) evs \<Rightarrow>
          (case destroy_n dst' d_first (current - d_first) of
             Inl f \<Rightarrow> Fault f
           | Inr (dst'', evs') \<Rightarrow> Threw e dst'' (evs @ evs'))
      | Fault f \<Rightarrow> Fault f)"

text \<open>
  \<^verbatim>\<open>std::uninitialized_move_n\<close> is the same algorithm with construction from
  \<^verbatim>\<open>std::move(*first)\<close>: each source object that has been moved is left in its
  moved-from state, also when a later move throws. Source and destination are different
  buffers at every call site, so the result is the pair of both.
\<close>

primrec uninitialized_move_loop ::
  "'a T_traits \<Rightarrow> 'a buffer \<Rightarrow> nat \<Rightarrow> nat \<Rightarrow> 'a buffer \<Rightarrow> nat \<Rightarrow>
     ('a buffer \<times> 'a buffer \<times> nat, 'a buffer \<times> 'a buffer \<times> nat, 'a) outcome" where
  "uninitialized_move_loop tr src first 0 dst current = Ok (src, dst, current) []"
| "uninitialized_move_loop tr src first (Suc count) dst current =
     (case read src first of
        Inl f \<Rightarrow> Fault f
      | Inr x \<Rightarrow>
          if length dst \<le> current then Fault (OutOfBounds current)
          else if rvalue_throws tr x then Threw elem_exn (src, dst, current) []
          else
            (case uninitialized_move_loop tr (src[first := Live (rvalue_leaves tr x)]) (Suc first) count
                    (dst[current := Live x]) (Suc current) of
               Ok r evs \<Rightarrow> Ok r (rvalue_ctor tr (Slot current) x # evs)
             | Threw e s evs \<Rightarrow> Threw e s (rvalue_ctor tr (Slot current) x # evs)
             | Fault f \<Rightarrow> Fault f))"

definition uninitialized_move_n ::
  "'a T_traits \<Rightarrow> 'a buffer \<Rightarrow> nat \<Rightarrow> nat \<Rightarrow> 'a buffer \<Rightarrow> nat \<Rightarrow>
     ('a buffer \<times> 'a buffer, 'a buffer \<times> 'a buffer, 'a) outcome" where
  "uninitialized_move_n tr src first count dst d_first =
     (case uninitialized_move_loop tr src first count dst d_first of
        Ok (src', dst', current) evs \<Rightarrow> Ok (src', dst') evs
      | Threw e (src', dst', current) evs \<Rightarrow>
          (case destroy_n dst' d_first (current - d_first) of
             Inl f \<Rightarrow> Fault f
           | Inr (dst'', evs') \<Rightarrow> Threw e (src', dst'') (evs @ evs'))
      | Fault f \<Rightarrow> Fault f)"

text \<open>
  The block
  \<^verbatim>\<open>if constexpr (std::is_nothrow_move_constructible_v<T> || !std::is_copy_constructible_v<T>)\<close>
  \<^verbatim>\<open>uninitialized_move_n(..) else uninitialized_copy_n(..)\<close>, which \<^verbatim>\<open>Reserve\<close>,
  \<^verbatim>\<open>PushBack\<close>, \<^verbatim>\<open>EmplaceBack\<close> and \<^verbatim>\<open>Emplace\<close> each contain.
\<close>

definition transfer_n ::
  "'a T_traits \<Rightarrow> 'a buffer \<Rightarrow> nat \<Rightarrow> nat \<Rightarrow> 'a buffer \<Rightarrow> nat \<Rightarrow>
     ('a buffer \<times> 'a buffer, 'a buffer \<times> 'a buffer, 'a) outcome" where
  "transfer_n tr src first count dst d_first =
     (if is_nothrow_move_constructible tr \<or> \<not> is_copy_constructible tr
      then uninitialized_move_n tr src first count dst d_first
      else
        (case uninitialized_copy_n tr src first count dst d_first of
           Ok dst' evs \<Rightarrow> Ok (src, dst') evs
         | Threw e dst' evs \<Rightarrow> Threw e (src, dst') evs
         | Fault f \<Rightarrow> Fault f))"

section \<open>The vector\<close>

text \<open>
  \<^verbatim>\<open>Vector<T>\<close> has the members \<^verbatim>\<open>data_\<close> (a \<^verbatim>\<open>RawMemory<T>\<close>) and
  \<^verbatim>\<open>size_\<close>. The record has the block that \<^verbatim>\<open>data_.buffer_\<close> points to in the
  field \<open>data_v\<close>, \<^verbatim>\<open>data_.capacity_\<close> in \<open>capacity_v\<close> and \<^verbatim>\<open>size_\<close> in
  \<open>size_v\<close> (a name cannot end in an underscore). An iterator is the index of the slot
  it points to, so \<^verbatim>\<open>begin()\<close> is \<open>0\<close> and \<^verbatim>\<open>end()\<close> is \<open>size_\<close>. The tests of
  the source on \<^verbatim>\<open>Capacity()\<close> read the field; whether a slot can be constructed or
  read depends on the block.

  An operation of the vector takes the traits of \<open>T\<close> and the vector, and returns
  an outcome: the new vector (with the result of the operation, if it has one) on a
  normal return, the vector as the exception leaves it on a throw. Arguments that are
  objects of type \<open>T\<close> are given by their value; what a move leaves in the
  caller's object is outside the vector and not modelled.
\<close>

record 'a Vector =
  data_v :: "'a buffer"
  capacity_v :: nat
  size_v :: nat

definition Capacity :: "'a Vector \<Rightarrow> nat" where
  "Capacity v = capacity_v v"

text \<open>
  \<^verbatim>\<open>RawMemory::Allocate(n)\<close> for \<open>n \<noteq> 0\<close> is
  \<^verbatim>\<open>operator new(n * sizeof(T))\<close>, and nothing checks the product: the block has the
  bytes of the product modulo \<open>2\<^sup>6\<^sup>4\<close>, and \<open>allocated n\<close> is that block, with the
  slots that fit into it. \<open>fits n\<close> says that the product does not wrap; the block has
  \<open>n\<close> slots then. \<^verbatim>\<open>Reserve\<close> passes a number chosen by its caller. The other
  operations that allocate pass the size of a vector that exists or twice its capacity,
  for which the product wraps only if that vector holds \<open>2\<^sup>6\<^sup>3\<close> bytes or more; their
  block is taken with \<open>n\<close> slots.
\<close>

definition allocated :: "'a T_traits \<Rightarrow> nat \<Rightarrow> 'a buffer" where
  "allocated tr n =
     (if n \<noteq> 0 then replicate (((n * sizeof_T tr) mod 2 ^ 64) div sizeof_T tr) Raw else [])"

definition fits :: "'a T_traits \<Rightarrow> nat \<Rightarrow> bool" where
  "fits tr n \<longleftrightarrow> 0 < sizeof_T tr \<and> n * sizeof_T tr < 2 ^ 64"

definition Size :: "'a Vector \<Rightarrow> nat" where
  "Size v = size_v v"

text \<open>\<^verbatim>\<open>operator[]\<close>, with its assertion \<^verbatim>\<open>index < size_\<close>.\<close>

definition at :: "'a Vector \<Rightarrow> nat \<Rightarrow> fault + 'a" where
  "at v index = (if index < size_v v then read (data_v v) index else Inl (OutOfBounds index))"

text \<open>\<^verbatim>\<open>Vector(const Vector& other)\<close>. When a copy throws, the member
  \<^verbatim>\<open>data_\<close> is released and no vector has been constructed.\<close>

definition Vector_copy :: "'a T_traits \<Rightarrow> 'a Vector \<Rightarrow> ('a Vector, unit, 'a) outcome" where
  "Vector_copy tr other =
     (let n = size_v other in
      if n \<noteq> 0 \<and> alloc_fails tr n then Threw bad_alloc () []
      else
        (case uninitialized_copy_n tr (data_v other) 0 n (replicate n Raw) 0 of
           Ok d evs \<Rightarrow> Ok \<lparr>data_v = d, capacity_v = n, size_v = n\<rparr> (Allocate n # evs)
         | Threw e d evs \<Rightarrow> Threw e () (Allocate n # evs @ [Deallocate n])
         | Fault f \<Rightarrow> Fault f))"

text \<open>\<^verbatim>\<open>Reserve(new_capacity)\<close>. No handler surrounds the transfer: when it
  throws, the local \<^verbatim>\<open>new_data\<close> is released and the exception leaves the old
  buffer as the transfer left it.\<close>

definition Reserve :: "'a T_traits \<Rightarrow> 'a Vector \<Rightarrow> nat \<Rightarrow> ('a Vector, 'a Vector, 'a) outcome" where
  "Reserve tr v new_capacity =
     (if new_capacity \<le> Capacity v then Ok v []
      else if alloc_fails tr new_capacity then Threw bad_alloc v []
      else
        (case transfer_n tr (data_v v) 0 (size_v v) (allocated tr new_capacity) 0 of
           Fault f \<Rightarrow> Fault f
         | Threw e (old, new_data) evs \<Rightarrow>
             Threw e (v\<lparr>data_v := old\<rparr>)
               (Allocate new_capacity # evs @ [Deallocate new_capacity])
         | Ok (old, new_data) evs \<Rightarrow>
             (case destroy_n old 0 (size_v v) of
                Inl f \<Rightarrow> Fault f
              | Inr (old', evs') \<Rightarrow>
                  Ok (v\<lparr>data_v := new_data, capacity_v := new_capacity\<rparr>)
                    (Allocate new_capacity # evs @ evs' @ [Deallocate (Capacity v)]))))"

text \<open>\<^verbatim>\<open>~Vector()\<close>: \<^verbatim>\<open>DestroyN(data_.GetAddress(), size_)\<close>, then the destructor
  of the member \<^verbatim>\<open>data_\<close>.\<close>

definition Vector_destroy :: "'a Vector \<Rightarrow> fault + 'a event list" where
  "Vector_destroy v =
     (case destroy_n (data_v v) 0 (size_v v) of
        Inl f \<Rightarrow> Inl f
      | Inr (d, evs) \<Rightarrow> Inr (evs @ [Deallocate (Capacity v)]))"

text \<open>The loop \<^verbatim>\<open>for (; i < n; ++i) data_[i] = rhs.data_[i];\<close> of the copy
  assignment, with \<open>count\<close> the iterations left. It returns the buffer and the final
  \<open>i\<close>.\<close>

primrec copy_assign_loop ::
  "'a T_traits \<Rightarrow> 'a buffer \<Rightarrow> 'a buffer \<Rightarrow> nat \<Rightarrow> nat \<Rightarrow>
     ('a buffer \<times> nat, 'a buffer \<times> nat, 'a) outcome" where
  "copy_assign_loop tr dst src i 0 = Ok (dst, i) []"
| "copy_assign_loop tr dst src i (Suc count) =
     (case read src i of
        Inl f \<Rightarrow> Fault f
      | Inr x \<Rightarrow>
          (case read dst i of
             Inl f \<Rightarrow> Fault f
           | Inr y \<Rightarrow>
               if copy_assign_throws tr x then Threw elem_exn (dst, i) []
               else
                 (case copy_assign_loop tr (dst[i := Live x]) src (Suc i) count of
                    Ok r evs \<Rightarrow> Ok r (CopyAssign (Slot i) x # evs)
                  | Threw e s evs \<Rightarrow> Threw e s (CopyAssign (Slot i) x # evs)
                  | Fault f \<Rightarrow> Fault f)))"

text \<open>
  \<^verbatim>\<open>Vector& operator=(const Vector& rhs)\<close> for \<^verbatim>\<open>this != &rhs\<close>: the body of the
  outer \<^verbatim>\<open>if\<close>. In the first branch the local \<^verbatim>\<open>rhs_copy\<close> holds the old contents
  after \<^verbatim>\<open>Swap\<close> and is destroyed at the end of the block.
\<close>

definition copy_assign_body ::
  "'a T_traits \<Rightarrow> 'a Vector \<Rightarrow> 'a Vector \<Rightarrow> ('a Vector, 'a Vector, 'a) outcome" where
  "copy_assign_body tr this rhs =
     (if size_v rhs > Capacity this then
        (case Vector_copy tr rhs of
           Fault f \<Rightarrow> Fault f
         | Threw e u evs \<Rightarrow> Threw e this evs
         | Ok rhs_copy evs \<Rightarrow>
             (case Vector_destroy this of
                Inl f \<Rightarrow> Fault f
              | Inr evs' \<Rightarrow> Ok rhs_copy (evs @ evs')))
      else if size_v rhs \<le> size_v this then
        (case copy_assign_loop tr (data_v this) (data_v rhs) 0 (size_v rhs) of
           Fault f \<Rightarrow> Fault f
         | Threw e (d, i) evs \<Rightarrow> Threw e (this\<lparr>data_v := d\<rparr>) evs
         | Ok (d, i) evs \<Rightarrow>
             (case destroy_n d i (size_v this - size_v rhs) of
                Inl f \<Rightarrow> Fault f
              | Inr (d', evs') \<Rightarrow> Ok (this\<lparr>data_v := d', size_v := size_v rhs\<rparr>) (evs @ evs')))
      else
        (case copy_assign_loop tr (data_v this) (data_v rhs) 0 (size_v this) of
           Fault f \<Rightarrow> Fault f
         | Threw e (d, i) evs \<Rightarrow> Threw e (this\<lparr>data_v := d\<rparr>) evs
         | Ok (d, i) evs \<Rightarrow>
             (case uninitialized_copy_n tr (data_v rhs) (i + 1) (size_v rhs - size_v this) d (i + 1) of
                Fault f \<Rightarrow> Fault f
              | Threw e d' evs' \<Rightarrow> Threw e (this\<lparr>data_v := d'\<rparr>) (evs @ evs')
              | Ok d' evs' \<Rightarrow> Ok (this\<lparr>data_v := d', size_v := size_v rhs\<rparr>) (evs @ evs'))))"

text \<open>
  The test \<^verbatim>\<open>this != &rhs\<close> compares addresses, so the operator itself is modelled
  on a store of vector objects: \<open>this\<close> and \<open>rhs\<close> are the addresses of two objects of
  the store, which may be the same object.
\<close>

type_synonym 'a store = "nat \<Rightarrow> 'a Vector option"

definition operator_assign ::
  "'a T_traits \<Rightarrow> nat \<Rightarrow> nat \<Rightarrow> 'a store \<Rightarrow> ('a store, 'a store, 'a) outcome" where
  "operator_assign tr this rhs st =
     (if this \<noteq> rhs then
        (case st this of
           None \<Rightarrow> Fault (Dangling this)
         | Some a \<Rightarrow>
             (case st rhs of
                None \<Rightarrow> Fault (Dangling rhs)
              | Some b \<Rightarrow>
                  (case copy_assign_body tr a b of
                     Fault f \<Rightarrow> Fault f
                   | Threw e a' evs \<Rightarrow> Threw e (st(this \<mapsto> a')) evs
                   | Ok a' evs \<Rightarrow> Ok (st(this \<mapsto> a')) evs)))
      else Ok st [])"

text \<open>The expression \<^verbatim>\<open>Capacity() == 0 ? 1 : Capacity() * 2\<close> that sizes
  \<^verbatim>\<open>new_data\<close> in \<^verbatim>\<open>PushBack\<close>, \<^verbatim>\<open>EmplaceBack\<close> and \<^verbatim>\<open>Emplace\<close>, as a
  function of the capacity.\<close>

definition grown_capacity :: "nat \<Rightarrow> nat" where
  "grown_capacity c = (if c = 0 then 1 else c * 2)"

text \<open>
  \<^verbatim>\<open>PushBack(const T&)\<close>, \<^verbatim>\<open>PushBack(T&&)\<close> and \<^verbatim>\<open>EmplaceBack(Args&&...)\<close> have
  the same body up to the constructor call that creates the new element; \<open>append_new\<close>
  is that body, with the constructor call as the argument \<open>a\<close>. No handler surrounds
  the transfer: when it throws, the local \<^verbatim>\<open>new_data\<close> is released with the new
  element still in it.
\<close>

definition append_new :: "'a T_traits \<Rightarrow> 'a Vector \<Rightarrow> 'a init \<Rightarrow> ('a Vector, 'a Vector, 'a) outcome" where
  "append_new tr v a =
     (if size_v v = Capacity v then
        (let n = grown_capacity (Capacity v) in
         if alloc_fails tr n then Threw bad_alloc v []
         else if n \<le> size_v v then Fault (OutOfBounds (size_v v))
         else if init_throws tr a then Threw elem_exn v [Allocate n, Deallocate n]
         else
           (case transfer_n tr (data_v v) 0 (size_v v)
                   ((replicate n Raw)[size_v v := Live (init_value a)]) 0 of
              Fault f \<Rightarrow> Fault f
            | Threw e (old, new_data) evs \<Rightarrow>
                Threw e (v\<lparr>data_v := old\<rparr>)
                  (Allocate n # init_event tr (Slot (size_v v)) a # evs @ [Deallocate n])
            | Ok (old, new_data) evs \<Rightarrow>
                (case destroy_n old 0 (size_v v) of
                   Inl f \<Rightarrow> Fault f
                 | Inr (old', evs') \<Rightarrow>
                     Ok \<lparr>data_v = new_data, capacity_v = n, size_v = size_v v + 1\<rparr>
                       (Allocate n # init_event tr (Slot (size_v v)) a # evs @ evs'
                          @ [Deallocate (Capacity v)]))))
      else if length (data_v v) \<le> size_v v then Fault (OutOfBounds (size_v v))
      else if init_throws tr a then Threw elem_exn v []
      else
        Ok (v\<lparr>data_v := (data_v v)[size_v v := Live (init_value a)], size_v := size_v v + 1\<rparr>)
          [init_event tr (Slot (size_v v)) a])"

definition PushBack_copy :: "'a T_traits \<Rightarrow> 'a Vector \<Rightarrow> 'a \<Rightarrow> ('a Vector, 'a Vector, 'a) outcome" where
  "PushBack_copy tr v val = append_new tr v (FromCopy val)"

definition PushBack_move :: "'a T_traits \<Rightarrow> 'a Vector \<Rightarrow> 'a \<Rightarrow> ('a Vector, 'a Vector, 'a) outcome" where
  "PushBack_move tr v val = append_new tr v (FromMove val)"

text \<open>\<^verbatim>\<open>EmplaceBack\<close> returns \<^verbatim>\<open>data_[size_++]\<close>, a reference to the new element:
  the index of its slot.\<close>

definition EmplaceBack ::
  "'a T_traits \<Rightarrow> 'a Vector \<Rightarrow> 'a init \<Rightarrow> ('a Vector \<times> nat, 'a Vector, 'a) outcome" where
  "EmplaceBack tr v a =
     (case append_new tr v a of
        Fault f \<Rightarrow> Fault f
      | Threw e v' evs \<Rightarrow> Threw e v' evs
      | Ok v' evs \<Rightarrow> Ok (v', size_v v) evs)"

text \<open>
  \<^verbatim>\<open>std::move(first, last, d_first)\<close> and \<^verbatim>\<open>std::move_backward(first, last, d_last)\<close>
  within one buffer, each with \<open>count = last - first\<close>. They assign from
  \<^verbatim>\<open>std::move(*first)\<close>, front to back and back to front; \<open>move_assign_throws\<close> and
  \<open>moved_from\<close> describe that assignment.
\<close>

primrec std_move ::
  "'a T_traits \<Rightarrow> 'a buffer \<Rightarrow> nat \<Rightarrow> nat \<Rightarrow> nat \<Rightarrow> ('a buffer, 'a buffer, 'a) outcome" where
  "std_move tr buf first 0 d_first = Ok buf []"
| "std_move tr buf first (Suc count) d_first =
     (case read buf first of
        Inl f \<Rightarrow> Fault f
      | Inr x \<Rightarrow>
          (case read buf d_first of
             Inl f \<Rightarrow> Fault f
           | Inr y \<Rightarrow>
               if move_assign_throws tr x then Threw elem_exn buf []
               else
                 (case std_move tr (buf[d_first := Live x, first := Live (moved_from tr x)])
                         (Suc first) count (Suc d_first) of
                    Ok r evs \<Rightarrow> Ok r (MoveAssign (Slot d_first) x # evs)
                  | Threw e s evs \<Rightarrow> Threw e s (MoveAssign (Slot d_first) x # evs)
                  | Fault f \<Rightarrow> Fault f)))"

primrec std_move_backward ::
  "'a T_traits \<Rightarrow> 'a buffer \<Rightarrow> nat \<Rightarrow> nat \<Rightarrow> nat \<Rightarrow> ('a buffer, 'a buffer, 'a) outcome" where
  "std_move_backward tr buf first 0 d_last = Ok buf []"
| "std_move_backward tr buf first (Suc count) d_last =
     (if d_last = 0 then Fault (InvalidIterator 0)
      else
        (case read buf (first + count) of
           Inl f \<Rightarrow> Fault f
         | Inr x \<Rightarrow>
             (case read buf (d_last - 1) of
                Inl f \<Rightarrow> Fault f
              | Inr y \<Rightarrow>
                  if move_assign_throws tr x then Threw elem_exn buf []
                  else
                    (case std_move_backward tr
                            (buf[d_last - 1 := Live x, first + count := Live (moved_from tr x)])
                            first count (d_last - 1) of
                       Ok r evs \<Rightarrow> Ok r (MoveAssign (Slot (d_last - 1)) x # evs)
                     | Threw e s evs \<Rightarrow> Threw e s (MoveAssign (Slot (d_last - 1)) x # evs)
                     | Fault f \<Rightarrow> Fault f))))"

text \<open>
  \<^verbatim>\<open>Emplace(pos, args...)\<close>. The iterator \<open>pos\<close> must lie in \<open>[begin(), end()]\<close>;
  the result is the iterator to the new element. In the branch that grows, the handlers
  are: a throwing prefix transfer runs the outer handler, which destroys the new
  element; a throwing suffix transfer runs the inner handler, which destroys the prefix,
  and then the outer one.
\<close>

definition Emplace ::
  "'a T_traits \<Rightarrow> 'a Vector \<Rightarrow> nat \<Rightarrow> 'a init \<Rightarrow> ('a Vector \<times> nat, 'a Vector, 'a) outcome" where
  "Emplace tr v pos a =
     (if size_v v < pos then Fault (InvalidIterator pos)
      else if pos = size_v v then
        (case EmplaceBack tr v a of
           Fault f \<Rightarrow> Fault f
         | Threw e v' evs \<Rightarrow> Threw e v' evs
         | Ok (v', r) evs \<Rightarrow> Ok (v', size_v v' - 1) evs)
      else if Capacity v = size_v v then
        (let n = grown_capacity (Capacity v);
             distance = pos;
             total_distance = size_v v
         in
         if alloc_fails tr n then Threw bad_alloc v []
         else if n \<le> distance then Fault (OutOfBounds distance)
         else if init_throws tr a then Threw elem_exn v [Allocate n, Deallocate n]
         else
           (case transfer_n tr (data_v v) 0 distance
                   ((replicate n Raw)[distance := Live (init_value a)]) 0 of
              Fault f \<Rightarrow> Fault f
            | Threw e (old, new_data) evs \<Rightarrow>
                (case destroy_n new_data distance 1 of
                   Inl f \<Rightarrow> Fault f
                 | Inr (cleared, evs') \<Rightarrow>
                     Threw e (v\<lparr>data_v := old\<rparr>)
                       (Allocate n # init_event tr (Slot distance) a # evs @ evs' @ [Deallocate n]))
            | Ok (old, new_data) evs \<Rightarrow>
                (case transfer_n tr old distance (total_distance - distance) new_data (distance + 1) of
                   Fault f \<Rightarrow> Fault f
                 | Threw e (old2, new_data2) evs2 \<Rightarrow>
                     (case destroy_n new_data2 0 distance of
                        Inl f \<Rightarrow> Fault f
                      | Inr (new_data3, evs3) \<Rightarrow>
                          (case destroy_n new_data3 distance 1 of
                             Inl f \<Rightarrow> Fault f
                           | Inr (cleared, evs4) \<Rightarrow>
                               Threw e (v\<lparr>data_v := old2\<rparr>)
                                 (Allocate n # init_event tr (Slot distance) a # evs @ evs2 @ evs3 @ evs4
                                    @ [Deallocate n])))
                 | Ok (old2, new_data2) evs2 \<Rightarrow>
                     (case destroy_n old2 0 (size_v v) of
                        Inl f \<Rightarrow> Fault f
                      | Inr (cleared, evs3) \<Rightarrow>
                          Ok (\<lparr>data_v = new_data2, capacity_v = n, size_v = size_v v + 1\<rparr>, distance)
                            (Allocate n # init_event tr (Slot distance) a # evs @ evs2 @ evs3
                               @ [Deallocate (Capacity v)])))))
      else if init_throws tr a then Threw elem_exn v []
      else
        (let tmp_elem = init_value a in
         case read (data_v v) (size_v v - 1) of
           Inl f \<Rightarrow> Fault f
         | Inr y \<Rightarrow>
             if length (data_v v) \<le> size_v v then Fault (OutOfBounds (size_v v))
             else if rvalue_throws tr y
             then Threw elem_exn v [init_event tr Temporary a, Dtor Temporary tmp_elem]
             else
               (case std_move_backward tr
                       ((data_v v)[size_v v - 1 := Live (rvalue_leaves tr y), size_v v := Live y])
                       pos (size_v v - 1 - pos) (size_v v) of
                  Fault f \<Rightarrow> Fault f
                | Threw e d evs \<Rightarrow>
                    Threw e (v\<lparr>data_v := d\<rparr>)
                      (init_event tr Temporary a # rvalue_ctor tr (Slot (size_v v)) y # evs
                         @ [Dtor Temporary tmp_elem])
                | Ok d evs \<Rightarrow>
                    (case read d pos of
                       Inl f \<Rightarrow> Fault f
                     | Inr z \<Rightarrow>
                         if move_assign_throws tr tmp_elem
                         then Threw elem_exn (v\<lparr>data_v := d\<rparr>)
                                (init_event tr Temporary a # rvalue_ctor tr (Slot (size_v v)) y # evs
                                   @ [Dtor Temporary tmp_elem])
                         else
                           Ok (v\<lparr>data_v := d[pos := Live tmp_elem], size_v := size_v v + 1\<rparr>, pos)
                             (init_event tr Temporary a # rvalue_ctor tr (Slot (size_v v)) y # evs
                                @ [MoveAssign (Slot pos) tmp_elem,
                                   Dtor Temporary (moved_from tr tmp_elem)])))))"

text \<open>\<^verbatim>\<open>Insert(pos, const T&)\<close> and \<^verbatim>\<open>Insert(pos, T&&)\<close>.\<close>

definition Insert_copy ::
  "'a T_traits \<Rightarrow> 'a Vector \<Rightarrow> nat \<Rightarrow> 'a \<Rightarrow> ('a Vector \<times> nat, 'a Vector, 'a) outcome" where
  "Insert_copy tr v pos val = Emplace tr v pos (FromCopy val)"

definition Insert_move ::
  "'a T_traits \<Rightarrow> 'a Vector \<Rightarrow> nat \<Rightarrow> 'a \<Rightarrow> ('a Vector \<times> nat, 'a Vector, 'a) outcome" where
  "Insert_move tr v pos val = Emplace tr v pos (FromMove val)"

text \<open>\<^verbatim>\<open>Erase(pos)\<close>. The iterator must lie in \<open>[begin(), end())\<close>: otherwise
  \<^verbatim>\<open>iter + 1\<close> passes \<^verbatim>\<open>end()\<close>.\<close>

definition Erase ::
  "'a T_traits \<Rightarrow> 'a Vector \<Rightarrow> nat \<Rightarrow> ('a Vector \<times> nat, 'a Vector, 'a) outcome" where
  "Erase tr v pos =
     (if size_v v \<le> pos then Fault (InvalidIterator pos)
      else
        (case std_move tr (data_v v) (pos + 1) (size_v v - (pos + 1)) pos of
           Fault f \<Rightarrow> Fault f
         | Threw e d evs \<Rightarrow> Threw e (v\<lparr>data_v := d\<rparr>) evs
         | Ok d evs \<Rightarrow>
             (case destroy_n d (size_v v - 1) 1 of
                Inl f \<Rightarrow> Fault f
              | Inr (d', evs') \<Rightarrow>
                  Ok (v\<lparr>data_v := d', size_v := size_v v - 1\<rparr>, pos) (evs @ evs'))))"

text \<open>\<^verbatim>\<open>PopBack()\<close>.\<close>

definition PopBack :: "'a Vector \<Rightarrow> fault + ('a Vector \<times> 'a event list)" where
  "PopBack v =
     (if size_v v = 0 then Inl EmptyVector
      else
        (case destroy_n (data_v v) (size_v v - 1) 1 of
           Inl f \<Rightarrow> Inl f
         | Inr (d, evs) \<Rightarrow> Inr (v\<lparr>data_v := d, size_v := size_v v - 1\<rparr>, evs)))"

text \<open>\<^verbatim>\<open>end()\<close>, as an index; \<^verbatim>\<open>begin()\<close> is the index \<open>0\<close>.\<close>

definition end_v :: "'a Vector \<Rightarrow> nat" where
  "end_v v = size_v v"

section \<open>The state invariant and the abstraction\<close>

text \<open>
  A vector is well formed when its block has \<open>capacity_\<close> slots,
  \<open>size_ \<le> capacity_\<close>, the slots below \<open>size_\<close> hold live objects and the slots
  from \<open>size_\<close> on are raw. Its contents are the values of the live objects, in order.
\<close>

fun is_live :: "'a slot \<Rightarrow> bool" where
  "is_live (Live x) = True"
| "is_live Raw = False"

fun the_live :: "'a slot \<Rightarrow> 'a option" where
  "the_live (Live x) = Some x"
| "the_live Raw = None"

definition invar :: "'a Vector \<Rightarrow> bool" where
  "invar v \<longleftrightarrow>
     capacity_v v = length (data_v v) \<and>
     size_v v \<le> length (data_v v) \<and>
     list_all is_live (take (size_v v) (data_v v)) \<and>
     list_all (\<lambda>s. \<not> is_live s) (drop (size_v v) (data_v v))"

definition elems :: "'a Vector \<Rightarrow> 'a list" where
  "elems v = List.map_filter the_live (take (size_v v) (data_v v))"

text \<open>The well-formed vector with contents \<open>xs\<close> and \<open>k\<close> spare slots.\<close>

definition mk :: "'a list \<Rightarrow> nat \<Rightarrow> 'a Vector" where
  "mk xs k =
     \<lparr>data_v = map Live xs @ replicate k Raw, capacity_v = length xs + k, size_v = length xs\<rparr>"

section \<open>Vocabulary for the statements\<close>

text \<open>The events of \<open>C\<close> at consecutive slots from \<open>n\<close> on, one per value.\<close>

fun ev_seq :: "(place \<Rightarrow> 'a \<Rightarrow> 'a event) \<Rightarrow> nat \<Rightarrow> 'a list \<Rightarrow> 'a event list" where
  "ev_seq C n [] = []"
| "ev_seq C n (x # xs) = C (Slot n) x # ev_seq C (Suc n) xs"

text \<open>
  A transfer constructs from an rvalue when
  \<^verbatim>\<open>is_nothrow_move_constructible_v<T> || !is_copy_constructible_v<T>\<close>, and copies
  otherwise. With this choice come: which values make the transfer throw, the event of
  one transferred element, the value left in the old slot, and the longest prefix of a
  range that is transferred before the first throw.
\<close>

definition uses_move :: "'a T_traits \<Rightarrow> bool" where
  "uses_move tr \<longleftrightarrow> is_nothrow_move_constructible tr \<or> \<not> is_copy_constructible tr"

definition transfer_throws :: "'a T_traits \<Rightarrow> 'a \<Rightarrow> bool" where
  "transfer_throws tr x = (if uses_move tr then rvalue_throws tr x else copy_throws tr x)"

definition transfer_ctor :: "'a T_traits \<Rightarrow> place \<Rightarrow> 'a \<Rightarrow> 'a event" where
  "transfer_ctor tr = (if uses_move tr then rvalue_ctor tr else CopyCtor)"

definition left_behind :: "'a T_traits \<Rightarrow> 'a \<Rightarrow> 'a" where
  "left_behind tr x = (if uses_move tr then rvalue_leaves tr x else x)"

definition transferable :: "'a T_traits \<Rightarrow> 'a list \<Rightarrow> 'a list" where
  "transferable tr xs = takeWhile (\<lambda>x. \<not> transfer_throws tr x) xs"

text \<open>The counters of an instrumented element type: how many objects a trace
  move-constructs and how many it copy-constructs.\<close>

fun is_move_ctor :: "'a event \<Rightarrow> bool" where
  "is_move_ctor (MoveCtor p x) = True"
| "is_move_ctor e = False"

fun is_copy_ctor :: "'a event \<Rightarrow> bool" where
  "is_copy_ctor (CopyCtor p x) = True"
| "is_copy_ctor e = False"

definition num_moved :: "'a event list \<Rightarrow> nat" where
  "num_moved evs = length (filter is_move_ctor evs)"

definition num_copied :: "'a event list \<Rightarrow> nat" where
  "num_copied evs = length (filter is_copy_ctor evs)"

text \<open>
  What the choice of the transfer predicts for the counters: a growth of a vector of
  size \<open>n\<close> moves \<open>n\<close> elements and copies none when \<open>T\<close> has a move constructor
  that is non-throwing or \<open>T\<close> has no copy constructor, and copies \<open>n\<close> and moves none
  otherwise. The construction of the new element from \<^verbatim>\<open>const T&\<close> adds one copy;
  from \<^verbatim>\<open>T&&\<close> it adds one move, or one copy for a type without a move constructor.
\<close>

definition moves_on_growth :: "'a T_traits \<Rightarrow> bool" where
  "moves_on_growth tr \<longleftrightarrow>
     has_move_ctor tr \<and> is_nothrow_move_constructible tr \<or> \<not> is_copy_constructible tr"

fun init_moves :: "'a T_traits \<Rightarrow> 'a init \<Rightarrow> nat" where
  "init_moves tr (FromMove x) = (if rvalue_copies tr then 0 else 1)"
| "init_moves tr a = 0"

fun init_copies :: "'a T_traits \<Rightarrow> 'a init \<Rightarrow> nat" where
  "init_copies tr (FromCopy x) = 1"
| "init_copies tr (FromMove x) = (if rvalue_copies tr then 1 else 0)"
| "init_copies tr a = 0"

definition transfer_moves :: "'a T_traits \<Rightarrow> 'a Vector \<Rightarrow> nat" where
  "transfer_moves tr v = (if moves_on_growth tr then size_v v else 0)"

definition transfer_copies :: "'a T_traits \<Rightarrow> 'a Vector \<Rightarrow> nat" where
  "transfer_copies tr v = (if moves_on_growth tr then 0 else size_v v)"

text \<open>
  Four element types over the natural numbers, of four bytes, for concrete runs.
  \<open>T_nothrow\<close> has a \<^verbatim>\<open>noexcept\<close> move constructor and nothing of it throws.
  \<open>T_copying\<close> has a move constructor that may throw and a copy constructor, and
  copying the value \<open>13\<close> throws. \<open>T_move_only\<close> has no copy constructor, and moving
  the value \<open>13\<close> throws. A moved-from object of these has the value \<open>0\<close>.
  \<open>T_copy_only\<close> declares a \<^verbatim>\<open>noexcept\<close> copy constructor and a copy assignment and
  has no move operations: an rvalue is copied, and keeps its value.
\<close>

definition T_nothrow :: "nat T_traits" where
  "T_nothrow =
     \<lparr>is_nothrow_move_constructible = True, is_copy_constructible = True,
      has_move_ctor = True, sizeof_T = 4,
      copy_throws = (\<lambda>x. False), move_throws = (\<lambda>x. False), ctor_throws = (\<lambda>x. False),
      copy_assign_throws = (\<lambda>x. False), move_assign_throws = (\<lambda>x. False),
      moved_from = (\<lambda>x. 0), alloc_fails = (\<lambda>n. False)\<rparr>"

definition T_copying :: "nat T_traits" where
  "T_copying =
     \<lparr>is_nothrow_move_constructible = False, is_copy_constructible = True,
      has_move_ctor = True, sizeof_T = 4,
      copy_throws = (\<lambda>x. x = 13), move_throws = (\<lambda>x. False), ctor_throws = (\<lambda>x. False),
      copy_assign_throws = (\<lambda>x. False), move_assign_throws = (\<lambda>x. False),
      moved_from = (\<lambda>x. 0), alloc_fails = (\<lambda>n. False)\<rparr>"

definition T_move_only :: "nat T_traits" where
  "T_move_only =
     \<lparr>is_nothrow_move_constructible = False, is_copy_constructible = False,
      has_move_ctor = True, sizeof_T = 4,
      copy_throws = (\<lambda>x. False), move_throws = (\<lambda>x. x = 13), ctor_throws = (\<lambda>x. False),
      copy_assign_throws = (\<lambda>x. False), move_assign_throws = (\<lambda>x. False),
      moved_from = (\<lambda>x. 0), alloc_fails = (\<lambda>n. False)\<rparr>"

definition T_copy_only :: "nat T_traits" where
  "T_copy_only =
     \<lparr>is_nothrow_move_constructible = True, is_copy_constructible = True,
      has_move_ctor = False, sizeof_T = 4,
      copy_throws = (\<lambda>x. False), move_throws = (\<lambda>x. False), ctor_throws = (\<lambda>x. False),
      copy_assign_throws = (\<lambda>x. False), move_assign_throws = (\<lambda>x. False),
      moved_from = (\<lambda>x. x), alloc_fails = (\<lambda>n. False)\<rparr>"

section \<open>The library algorithms on segments\<close>

text \<open>
  The lemmas of this section compute each algorithm on a buffer written as a segment
  of live objects between two arbitrary parts, so that the index arguments are lengths.
\<close>

lemma ev_seq_append: "ev_seq C n (xs @ ys) = ev_seq C n xs @ ev_seq C (n + length xs) ys"
  by (induction xs arbitrary: n) auto

lemma length_ev_seq [simp]: "length (ev_seq C n xs) = length xs"
  by (induction xs arbitrary: n) auto

lemma read_mid [simp]: "read (pre @ Live x # post) (length pre) = Inr x"
  by (simp add: read_def)

lemma destroy_n_seg:
  "destroy_n (pre @ map Live xs @ post) (length pre) (length xs) =
     Inr (pre @ replicate (length xs) Raw @ post, ev_seq Dtor (length pre) xs)"
proof (induction xs arbitrary: pre)
  case Nil
  show ?case by simp
next
  case (Cons x xs)
  have "destroy_n ((pre @ [Raw]) @ map Live xs @ post) (length (pre @ [Raw])) (length xs) =
     Inr ((pre @ [Raw]) @ replicate (length xs) Raw @ post, ev_seq Dtor (length (pre @ [Raw])) xs)"
    by (rule Cons.IH)
  then show ?case by simp
qed

lemma copy_loop_seg:
  "length raws = length xs \<Longrightarrow>
   uninitialized_copy_loop tr (spre @ map Live xs @ spost) (length spre) (length xs)
     (dpre @ raws @ dpost) (length dpre) =
   (let ys = takeWhile (\<lambda>x. \<not> copy_throws tr x) xs in
    if ys = xs
    then Ok (dpre @ map Live xs @ dpost, length dpre + length xs) (ev_seq CopyCtor (length dpre) xs)
    else Threw elem_exn (dpre @ map Live ys @ drop (length ys) raws @ dpost, length dpre + length ys)
           (ev_seq CopyCtor (length dpre) ys))"
proof (induction xs arbitrary: spre dpre raws)
  case Nil
  then show ?case by simp
next
  case (Cons x xs)
  then obtain r rs where raws: "raws = r # rs" and len: "length rs = length xs"
    by (cases raws) auto
  have IH: "uninitialized_copy_loop tr ((spre @ [Live x]) @ map Live xs @ spost) (length (spre @ [Live x]))
       (length xs) ((dpre @ [Live x]) @ rs @ dpost) (length (dpre @ [Live x])) =
   (let ys = takeWhile (\<lambda>x. \<not> copy_throws tr x) xs in
    if ys = xs
    then Ok ((dpre @ [Live x]) @ map Live xs @ dpost, length (dpre @ [Live x]) + length xs)
           (ev_seq CopyCtor (length (dpre @ [Live x])) xs)
    else Threw elem_exn ((dpre @ [Live x]) @ map Live ys @ drop (length ys) rs @ dpost,
             length (dpre @ [Live x]) + length ys)
           (ev_seq CopyCtor (length (dpre @ [Live x])) ys))"
    by (rule Cons.IH [OF len])
  show ?case
    using IH by (simp add: raws Let_def)
qed

lemma takeWhile_length_le: "length (takeWhile P xs) \<le> length xs"
  by (induction xs) auto

lemma copy_n_seg:
  "uninitialized_copy_n tr (spre @ map Live xs @ spost) (length spre) (length xs)
     (dpre @ replicate (length xs) Raw @ dpost) (length dpre) =
   (let ys = takeWhile (\<lambda>x. \<not> copy_throws tr x) xs in
    if ys = xs
    then Ok (dpre @ map Live xs @ dpost) (ev_seq CopyCtor (length dpre) xs)
    else Threw elem_exn (dpre @ replicate (length xs) Raw @ dpost)
           (ev_seq CopyCtor (length dpre) ys @ ev_seq Dtor (length dpre) ys))"
proof -
  define ys where "ys = takeWhile (\<lambda>x. \<not> copy_throws tr x) xs"
  have le: "length ys \<le> length xs"
    unfolding ys_def by (rule takeWhile_length_le)
  have d: "destroy_n (dpre @ map Live ys @ replicate (length xs - length ys) Raw @ dpost)
             (length dpre) (length ys) =
           Inr (dpre @ replicate (length ys) Raw @ replicate (length xs - length ys) Raw @ dpost,
                ev_seq Dtor (length dpre) ys)"
    by (rule destroy_n_seg)
  have r: "replicate (length ys) Raw @ replicate (length xs - length ys) (Raw :: 'a slot)
             = replicate (length xs) Raw"
    using le by (simp add: replicate_add [symmetric])
  have d': "destroy_n (dpre @ map Live ys @ replicate (length xs - length ys) Raw @ dpost)
             (length dpre) (length ys) =
           Inr (dpre @ replicate (length xs) Raw @ dpost, ev_seq Dtor (length dpre) ys)"
    using d r by (metis append.assoc)
  show ?thesis
    unfolding uninitialized_copy_n_def
    using d' by (simp add: copy_loop_seg Let_def ys_def [symmetric])
qed

lemma move_loop_seg:
  "length raws = length xs \<Longrightarrow>
   uninitialized_move_loop tr (spre @ map Live xs @ spost) (length spre) (length xs)
     (dpre @ raws @ dpost) (length dpre) =
   (let ys = takeWhile (\<lambda>x. \<not> rvalue_throws tr x) xs in
    if ys = xs
    then Ok (spre @ map (\<lambda>x. Live (rvalue_leaves tr x)) xs @ spost,
             dpre @ map Live xs @ dpost, length dpre + length xs)
           (ev_seq (rvalue_ctor tr) (length dpre) xs)
    else Threw elem_exn
           (spre @ map (\<lambda>x. Live (rvalue_leaves tr x)) ys @ map Live (drop (length ys) xs) @ spost,
            dpre @ map Live ys @ drop (length ys) raws @ dpost, length dpre + length ys)
           (ev_seq (rvalue_ctor tr) (length dpre) ys))"
proof (induction xs arbitrary: spre dpre raws)
  case Nil
  then show ?case by simp
next
  case (Cons x xs)
  then obtain r rs where raws: "raws = r # rs" and len: "length rs = length xs"
    by (cases raws) auto
  have IH: "uninitialized_move_loop tr ((spre @ [Live (rvalue_leaves tr x)]) @ map Live xs @ spost)
       (length (spre @ [Live (rvalue_leaves tr x)]))
       (length xs) ((dpre @ [Live x]) @ rs @ dpost) (length (dpre @ [Live x])) =
   (let ys = takeWhile (\<lambda>x. \<not> rvalue_throws tr x) xs in
    if ys = xs
    then Ok ((spre @ [Live (rvalue_leaves tr x)]) @ map (\<lambda>x. Live (rvalue_leaves tr x)) xs @ spost,
             (dpre @ [Live x]) @ map Live xs @ dpost, length (dpre @ [Live x]) + length xs)
           (ev_seq (rvalue_ctor tr) (length (dpre @ [Live x])) xs)
    else Threw elem_exn
           ((spre @ [Live (rvalue_leaves tr x)]) @ map (\<lambda>x. Live (rvalue_leaves tr x)) ys
               @ map Live (drop (length ys) xs) @ spost,
            (dpre @ [Live x]) @ map Live ys @ drop (length ys) rs @ dpost,
            length (dpre @ [Live x]) + length ys)
           (ev_seq (rvalue_ctor tr) (length (dpre @ [Live x])) ys))"
    by (rule Cons.IH [OF len])
  show ?case
    using IH by (simp add: raws Let_def)
qed

lemma move_n_seg:
  "uninitialized_move_n tr (spre @ map Live xs @ spost) (length spre) (length xs)
     (dpre @ replicate (length xs) Raw @ dpost) (length dpre) =
   (let ys = takeWhile (\<lambda>x. \<not> rvalue_throws tr x) xs in
    if ys = xs
    then Ok (spre @ map (\<lambda>x. Live (rvalue_leaves tr x)) xs @ spost, dpre @ map Live xs @ dpost)
           (ev_seq (rvalue_ctor tr) (length dpre) xs)
    else Threw elem_exn
           (spre @ map (\<lambda>x. Live (rvalue_leaves tr x)) ys @ map Live (drop (length ys) xs) @ spost,
            dpre @ replicate (length xs) Raw @ dpost)
           (ev_seq (rvalue_ctor tr) (length dpre) ys @ ev_seq Dtor (length dpre) ys))"
proof -
  define ys where "ys = takeWhile (\<lambda>x. \<not> rvalue_throws tr x) xs"
  have le: "length ys \<le> length xs"
    unfolding ys_def by (rule takeWhile_length_le)
  have d: "destroy_n (dpre @ map Live ys @ replicate (length xs - length ys) Raw @ dpost)
             (length dpre) (length ys) =
           Inr (dpre @ replicate (length ys) Raw @ replicate (length xs - length ys) Raw @ dpost,
                ev_seq Dtor (length dpre) ys)"
    by (rule destroy_n_seg)
  have r: "replicate (length ys) Raw @ replicate (length xs - length ys) (Raw :: 'a slot)
             = replicate (length xs) Raw"
    using le by (simp add: replicate_add [symmetric])
  have d': "destroy_n (dpre @ map Live ys @ replicate (length xs - length ys) Raw @ dpost)
             (length dpre) (length ys) =
           Inr (dpre @ replicate (length xs) Raw @ dpost, ev_seq Dtor (length dpre) ys)"
    using d r by (metis append.assoc)
  show ?thesis
    unfolding uninitialized_move_n_def
    using d' by (simp add: move_loop_seg Let_def ys_def [symmetric])
qed

lemma transfer_n_seg:
  "transfer_n tr (spre @ map Live xs @ spost) (length spre) (length xs)
     (dpre @ replicate (length xs) Raw @ dpost) (length dpre) =
   (let ys = transferable tr xs in
    if ys = xs
    then Ok (spre @ map (\<lambda>x. Live (left_behind tr x)) xs @ spost, dpre @ map Live xs @ dpost)
           (ev_seq (transfer_ctor tr) (length dpre) xs)
    else Threw elem_exn
           (spre @ map (\<lambda>x. Live (left_behind tr x)) ys @ map Live (drop (length ys) xs) @ spost,
            dpre @ replicate (length xs) Raw @ dpost)
           (ev_seq (transfer_ctor tr) (length dpre) ys @ ev_seq Dtor (length dpre) ys))"
proof (cases "uses_move tr")
  case True
  then have "is_nothrow_move_constructible tr \<or> \<not> is_copy_constructible tr"
    by (simp add: uses_move_def)
  then show ?thesis
    unfolding transfer_n_def
    using True by (simp add: move_n_seg transferable_def transfer_throws_def transfer_ctor_def left_behind_def Let_def)
next
  case False
  then have "\<not> (is_nothrow_move_constructible tr \<or> \<not> is_copy_constructible tr)"
    by (simp add: uses_move_def)
  moreover have "map Live ys @ map Live (drop (length ys) xs) = map Live xs"
    if "ys = takeWhile P xs" for ys :: "'a list" and P
    using that by (metis map_append takeWhile_dropWhile_id dropWhile_eq_drop)
  ultimately show ?thesis
    unfolding transfer_n_def
    using False by (simp add: copy_n_seg transferable_def transfer_throws_def transfer_ctor_def left_behind_def Let_def)
qed


lemma transfer_n_at:
  assumes "src = spre @ map Live xs @ spost" and "first = length spre" and "count = length xs"
    and "dst = dpre @ replicate (length xs) Raw @ dpost" and "d_first = length dpre"
  shows "transfer_n tr src first count dst d_first =
   (if transferable tr xs = xs
    then Ok (spre @ map (\<lambda>x. Live (left_behind tr x)) xs @ spost, dpre @ map Live xs @ dpost)
           (ev_seq (transfer_ctor tr) (length dpre) xs)
    else Threw elem_exn
           (spre @ map (\<lambda>x. Live (left_behind tr x)) (transferable tr xs)
              @ map Live (drop (length (transferable tr xs)) xs) @ spost,
            dpre @ replicate (length xs) Raw @ dpost)
           (ev_seq (transfer_ctor tr) (length dpre) (transferable tr xs)
              @ ev_seq Dtor (length dpre) (transferable tr xs)))"
  unfolding assms by (simp add: transfer_n_seg Let_def)

lemma destroy_n_at:
  assumes "buf = pre @ map Live xs @ post" and "first = length pre" and "n = length xs"
  shows "destroy_n buf first n = Inr (pre @ replicate (length xs) Raw @ post, ev_seq Dtor (length pre) xs)"
  unfolding assms by (rule destroy_n_seg)





lemma replicate_split: "m \<le> n \<Longrightarrow> replicate n x = replicate m x @ replicate (n - m) x"
  by (simp add: replicate_add [symmetric])

lemma replicate_update:
  "m < n \<Longrightarrow> (replicate n Raw)[m := s] = replicate m Raw @ s # replicate (n - Suc m) Raw"
proof -
  assume "m < n"
  then have "replicate n (Raw :: 'a slot) = replicate m Raw @ Raw # replicate (n - Suc m) Raw"
    by (metis Suc_diff_Suc replicate_Suc replicate_split less_imp_le_nat)
  then show ?thesis by (simp add: list_update_append)
qed

section \<open>The operations on well-formed vectors\<close>

text \<open>
  Every well-formed vector is \<open>mk xs k\<close> for its contents \<open>xs\<close> and its number
  \<open>k\<close> of spare slots. The lemmas of this section compute the operations on vectors of
  that form, for every outcome that the claims are about.
\<close>

lemma size_mk [simp]: "size_v (mk xs k) = length xs"
  by (simp add: mk_def)

lemma data_mk [simp]: "data_v (mk xs k) = map Live xs @ replicate k Raw"
  by (simp add: mk_def)

lemma Capacity_mk [simp]: "Capacity (mk xs k) = length xs + k"
  by (simp add: Capacity_def mk_def)

lemma capacity_mk [simp]: "capacity_v (mk xs k) = length xs + k"
  by (simp add: mk_def)

lemma allocated_fits: "fits tr n \<Longrightarrow> allocated tr n = replicate n Raw"
  by (simp add: allocated_def fits_def)

lemma mk_data_update: "(mk xs k)\<lparr>data_v := map Live ys @ replicate k Raw\<rparr> = mk ys k"
  if "length ys = length xs"
  using that by (simp add: mk_def)

lemma mk_eq:
  "\<lparr>data_v = map Live ys @ replicate j Raw, capacity_v = length ys + j, size_v = length ys\<rparr> = mk ys j"
  by (simp add: mk_def)

lemma Reserve_mk:
  "fits tr n \<Longrightarrow>
   Reserve tr (mk xs k) n =
     (if n \<le> length xs + k then Ok (mk xs k) []
      else if alloc_fails tr n then Threw bad_alloc (mk xs k) []
      else if transferable tr xs = xs
      then Ok (mk xs (n - length xs))
             (Allocate n # ev_seq (transfer_ctor tr) 0 xs
                @ ev_seq Dtor 0 (map (left_behind tr) xs) @ [Deallocate (length xs + k)])
      else Threw elem_exn
             (mk (map (left_behind tr) (transferable tr xs) @ drop (length (transferable tr xs)) xs) k)
             (Allocate n # ev_seq (transfer_ctor tr) 0 (transferable tr xs)
                @ ev_seq Dtor 0 (transferable tr xs) @ [Deallocate n]))"
proof (cases "n \<le> length xs + k")
  case True
  then show ?thesis by (simp add: Reserve_def)
next
  case False
  assume f: "fits tr n"
  from False have le: "length xs \<le> n" by simp
  let ?ys = "transferable tr xs"
  have t: "transfer_n tr (map Live xs @ replicate k Raw) 0 (length xs) (allocated tr n) 0 =
    (if ?ys = xs
     then Ok (map (\<lambda>x. Live (left_behind tr x)) xs @ replicate k Raw,
              map Live xs @ replicate (n - length xs) Raw)
            (ev_seq (transfer_ctor tr) 0 xs)
     else Threw elem_exn
            (map (\<lambda>x. Live (left_behind tr x)) ?ys @ map Live (drop (length ?ys) xs) @ replicate k Raw,
             replicate n Raw)
            (ev_seq (transfer_ctor tr) 0 ?ys @ ev_seq Dtor 0 ?ys))"
    using transfer_n_at [of "map Live xs @ replicate k Raw" "[]" xs "replicate k Raw" 0 "length xs"
        "replicate n Raw" "[]" "replicate (n - length xs) Raw" 0 tr]
      replicate_split [OF le, of "Raw :: 'a slot"]
    by (simp add: allocated_fits [OF f])
  have d: "destroy_n (map (\<lambda>x. Live (left_behind tr x)) xs @ replicate k Raw) 0 (length xs) =
      Inr (replicate (length xs) Raw @ replicate k Raw, ev_seq Dtor 0 (map (left_behind tr) xs))"
    using destroy_n_at [of _ "[]" "map (left_behind tr) xs" "replicate k Raw" 0 "length xs"]
    by (simp add: comp_def)
  have len: "length (map (left_behind tr) ?ys @ drop (length ?ys) xs) = length xs"
    using takeWhile_length_le [of _ xs] by (simp add: transferable_def)
  have m: "(mk xs k)\<lparr>data_v := map (\<lambda>x. Live (left_behind tr x)) ?ys @ map Live (drop (length ?ys) xs) @ replicate k Raw\<rparr>
      = mk (map (left_behind tr) ?ys @ drop (length ?ys) xs) k"
    using mk_data_update [OF len, of k] by (simp add: comp_def)
  have m2: "(mk xs k)\<lparr>data_v := map Live xs @ replicate (n - length xs) Raw, capacity_v := n\<rparr>
      = mk xs (n - length xs)"
    using le by (simp add: mk_def)
  show ?thesis
    using False by (simp add: Reserve_def t d m m2)
qed




lemma all_live_map: "list_all is_live ss \<Longrightarrow> map Live (List.map_filter the_live ss) = ss"
proof (induction ss)
  case Nil
  show ?case by (simp add: map_filter_simps)
next
  case (Cons s ss)
  then show ?case by (cases s) (simp_all add: map_filter_simps)
qed

lemma length_all_live: "list_all is_live ss \<Longrightarrow> length (List.map_filter the_live ss) = length ss"
  by (metis all_live_map length_map)

lemma all_raw_replicate: "list_all (\<lambda>s. \<not> is_live s) ss \<Longrightarrow> ss = replicate (length ss) Raw"
proof (induction ss)
  case Nil
  show ?case by simp
next
  case (Cons s ss)
  then show ?case by (cases s) simp_all
qed

lemma map_filter_live [simp]: "List.map_filter the_live (map Live xs) = xs"
  by (induction xs) (simp_all add: map_filter_simps)

lemma elems_mk [simp]: "elems (mk xs k) = xs"
  by (simp add: elems_def)

lemma invar_mk [simp]: "invar (mk xs k)"
  by (simp add: invar_def list_all_iff)

lemma invar_is_mk:
  assumes "invar v"
  shows "v = mk (elems v) (Capacity v - size_v v)"
proof -
  let ?d = "data_v v" and ?n = "size_v v"
  from assms have cap: "capacity_v v = length ?d"
    and le: "?n \<le> length ?d"
    and live: "list_all is_live (take ?n ?d)"
    and raw: "list_all (\<lambda>s. \<not> is_live s) (drop ?n ?d)"
    by (simp_all add: invar_def)
  have a: "map Live (elems v) = take ?n ?d"
    unfolding elems_def by (rule all_live_map [OF live])
  have b: "drop ?n ?d = replicate (length ?d - ?n) Raw"
    using all_raw_replicate [OF raw] by simp
  have c: "length (elems v) = ?n"
    unfolding elems_def using length_all_live [OF live] le by simp
  have "?d = take ?n ?d @ drop ?n ?d" by simp
  then have "?d = map Live (elems v) @ replicate (length ?d - ?n) Raw"
    using a b by simp
  then show ?thesis
    using c cap le by (simp add: mk_def Capacity_def)
qed

lemma size_elems: "invar v \<Longrightarrow> length (elems v) = size_v v"
  by (metis invar_is_mk size_mk)


lemma grow_pos: "n < grown_capacity n"
  by (simp add: grown_capacity_def)

lemma append_new_full_mk:
  "append_new tr (mk xs 0) a =
     (if alloc_fails tr (grown_capacity (length xs)) then Threw bad_alloc (mk xs 0) []
      else if init_throws tr a
      then Threw elem_exn (mk xs 0) [Allocate (grown_capacity (length xs)), Deallocate (grown_capacity (length xs))]
      else if transferable tr xs = xs
      then Ok (mk (xs @ [init_value a]) (grown_capacity (length xs) - Suc (length xs)))
             (Allocate (grown_capacity (length xs)) # init_event tr (Slot (length xs)) a
                # ev_seq (transfer_ctor tr) 0 xs
                @ ev_seq Dtor 0 (map (left_behind tr) xs) @ [Deallocate (length xs)])
      else Threw elem_exn
             (mk (map (left_behind tr) (transferable tr xs) @ drop (length (transferable tr xs)) xs) 0)
             (Allocate (grown_capacity (length xs)) # init_event tr (Slot (length xs)) a
                # ev_seq (transfer_ctor tr) 0 (transferable tr xs)
                @ ev_seq Dtor 0 (transferable tr xs) @ [Deallocate (grown_capacity (length xs))]))"
proof -
  let ?n = "grown_capacity (length xs)" and ?ys = "transferable tr xs" and ?x = "init_value a"
  have lt: "length xs < ?n" by (rule grow_pos)
  have dst: "(replicate ?n Raw)[length xs := Live ?x] =
      replicate (length xs) Raw @ Live ?x # replicate (?n - Suc (length xs)) Raw"
    by (rule replicate_update [OF lt])
  have t: "transfer_n tr (map Live xs) 0 (length xs)
      (replicate (length xs) Raw @ Live ?x # replicate (?n - Suc (length xs)) Raw) 0 =
    (if ?ys = xs
     then Ok (map (\<lambda>x. Live (left_behind tr x)) xs,
              map Live xs @ Live ?x # replicate (?n - Suc (length xs)) Raw)
            (ev_seq (transfer_ctor tr) 0 xs)
     else Threw elem_exn
            (map (\<lambda>x. Live (left_behind tr x)) ?ys @ map Live (drop (length ?ys) xs),
             replicate (length xs) Raw @ Live ?x # replicate (?n - Suc (length xs)) Raw)
            (ev_seq (transfer_ctor tr) 0 ?ys @ ev_seq Dtor 0 ?ys))"
    using transfer_n_at [of "map Live xs" "[]" xs "[]" 0 "length xs"
        "replicate (length xs) Raw @ Live ?x # replicate (?n - Suc (length xs)) Raw" "[]"
        "Live ?x # replicate (?n - Suc (length xs)) Raw" 0 tr]
    by simp
  have d: "destroy_n (map (\<lambda>x. Live (left_behind tr x)) xs) 0 (length xs) =
      Inr (replicate (length xs) Raw, ev_seq Dtor 0 (map (left_behind tr) xs))"
    using destroy_n_at [of _ "[]" "map (left_behind tr) xs" "[]" 0 "length xs"]
    by (simp add: comp_def)
  have len: "length (map (left_behind tr) ?ys @ drop (length ?ys) xs) = length xs"
    using takeWhile_length_le [of _ xs] by (simp add: transferable_def)
  have m: "(mk xs 0)\<lparr>data_v := map (\<lambda>x. Live (left_behind tr x)) ?ys @ map Live (drop (length ?ys) xs)\<rparr>
      = mk (map (left_behind tr) ?ys @ drop (length ?ys) xs) 0"
    using mk_data_update [OF len, of 0] by (simp add: comp_def)
  have m2: "\<lparr>data_v = map Live xs @ Live ?x # replicate (?n - Suc (length xs)) Raw,
              capacity_v = ?n, size_v = Suc (length xs)\<rparr>
      = mk (xs @ [?x]) (?n - Suc (length xs))"
    using lt by (simp add: mk_def)
  show ?thesis
    using lt by (simp add: append_new_def dst t d m m2 Let_def)
qed

lemma append_new_spare_mk:
  "append_new tr (mk xs (Suc k)) a =
     (if init_throws tr a then Threw elem_exn (mk xs (Suc k)) []
      else Ok (mk (xs @ [init_value a]) k) [init_event tr (Slot (length xs)) a])"
  by (simp add: append_new_def mk_def Capacity_def list_update_append)


lemma Emplace_grow_mk:
  assumes "suf \<noteq> []"
  shows "Emplace tr (mk (pre @ suf) 0) (length pre) a =
     (let n = grown_capacity (length pre + length suf); x = init_value a;
          p = transferable tr pre; s = transferable tr suf
      in
      if alloc_fails tr n then Threw bad_alloc (mk (pre @ suf) 0) []
      else if init_throws tr a then Threw elem_exn (mk (pre @ suf) 0) [Allocate n, Deallocate n]
      else if p \<noteq> pre
      then Threw elem_exn (mk (map (left_behind tr) p @ drop (length p) pre @ suf) 0)
             (Allocate n # init_event tr (Slot (length pre)) a
                # ev_seq (transfer_ctor tr) 0 p @ ev_seq Dtor 0 p
                @ [Dtor (Slot (length pre)) x, Deallocate n])
      else if s \<noteq> suf
      then Threw elem_exn (mk (map (left_behind tr) pre @ map (left_behind tr) s @ drop (length s) suf) 0)
             (Allocate n # init_event tr (Slot (length pre)) a
                # ev_seq (transfer_ctor tr) 0 pre
                @ (ev_seq (transfer_ctor tr) (Suc (length pre)) s @ ev_seq Dtor (Suc (length pre)) s)
                @ ev_seq Dtor 0 pre @ [Dtor (Slot (length pre)) x, Deallocate n])
      else Ok (mk (pre @ x # suf) (n - Suc (length pre + length suf)), length pre)
             (Allocate n # init_event tr (Slot (length pre)) a
                # ev_seq (transfer_ctor tr) 0 pre
                @ ev_seq (transfer_ctor tr) (Suc (length pre)) suf
                @ ev_seq Dtor 0 (map (left_behind tr) (pre @ suf))
                @ [Deallocate (length pre + length suf)]))"
proof -
  let ?n = "grown_capacity (length pre + length suf)" and ?x = "init_value a"
  let ?p = "transferable tr pre" and ?s = "transferable tr suf"
  let ?lb = "\<lambda>x. Live (left_behind tr x)"
  let ?m = "?n - Suc (length pre + length suf)"
  have lt: "length pre + length suf < ?n" by (rule grow_pos)
  then have lt': "length pre < ?n" by simp
  have ne: "length pre \<noteq> length pre + length suf" "\<not> length pre + length suf < length pre"
    using assms by simp_all
  have dst: "(replicate ?n Raw)[length pre := Live ?x] =
      replicate (length pre) Raw @ Live ?x # replicate (length suf) Raw @ replicate ?m Raw"
  proof -
    have "?n - Suc (length pre) = length suf + ?m" using lt by simp
    then show ?thesis
      using replicate_update [OF lt', of "Live ?x"] by (simp add: replicate_add)
  qed
  have t1: "transfer_n tr (map Live pre @ map Live suf) 0 (length pre)
      (replicate (length pre) Raw @ Live ?x # replicate (length suf) Raw @ replicate ?m Raw) 0 =
    (if ?p = pre
     then Ok (map ?lb pre @ map Live suf,
              map Live pre @ Live ?x # replicate (length suf) Raw @ replicate ?m Raw)
            (ev_seq (transfer_ctor tr) 0 pre)
     else Threw elem_exn
            (map ?lb ?p @ map Live (drop (length ?p) pre) @ map Live suf,
             replicate (length pre) Raw @ Live ?x # replicate (length suf) Raw @ replicate ?m Raw)
            (ev_seq (transfer_ctor tr) 0 ?p @ ev_seq Dtor 0 ?p))"
    using transfer_n_at [of "map Live pre @ map Live suf" "[]" pre "map Live suf" 0 "length pre"
        "replicate (length pre) Raw @ Live ?x # replicate (length suf) Raw @ replicate ?m Raw" "[]"
        "Live ?x # replicate (length suf) Raw @ replicate ?m Raw" 0 tr]
    by simp
  have d1: "destroy_n (replicate (length pre) Raw @ Live ?x # replicate (length suf) Raw @ replicate ?m Raw)
      (length pre) (Suc 0) =
      Inr (replicate (length pre) Raw @ Raw # replicate (length suf) Raw @ replicate ?m Raw,
           [Dtor (Slot (length pre)) ?x])"
    using destroy_n_at [of _ "replicate (length pre) Raw" "[?x]"
        "replicate (length suf) Raw @ replicate ?m Raw" "length pre" "Suc 0"]
    by simp
  have t2: "transfer_n tr (map ?lb pre @ map Live suf) (length pre) (length suf)
      (map Live pre @ Live ?x # replicate (length suf) Raw @ replicate ?m Raw) (Suc (length pre)) =
    (if ?s = suf
     then Ok (map ?lb pre @ map ?lb suf,
              map Live pre @ Live ?x # map Live suf @ replicate ?m Raw)
            (ev_seq (transfer_ctor tr) (Suc (length pre)) suf)
     else Threw elem_exn
            (map ?lb pre @ map ?lb ?s @ map Live (drop (length ?s) suf),
             map Live pre @ Live ?x # replicate (length suf) Raw @ replicate ?m Raw)
            (ev_seq (transfer_ctor tr) (Suc (length pre)) ?s @ ev_seq Dtor (Suc (length pre)) ?s))"
    using transfer_n_at [of "map ?lb pre @ map Live suf" "map ?lb pre" suf "[]" "length pre" "length suf"
        "map Live pre @ Live ?x # replicate (length suf) Raw @ replicate ?m Raw" "map Live pre @ [Live ?x]"
        "replicate ?m Raw" "Suc (length pre)" tr]
    by simp
  have d2: "destroy_n (map Live pre @ Live ?x # replicate (length suf) Raw @ replicate ?m Raw) 0 (length pre) =
      Inr (replicate (length pre) Raw @ Live ?x # replicate (length suf) Raw @ replicate ?m Raw,
           ev_seq Dtor 0 pre)"
    using destroy_n_at [of _ "[]" pre "Live ?x # replicate (length suf) Raw @ replicate ?m Raw" 0 "length pre"]
    by simp
  have d3: "destroy_n (map ?lb pre @ map ?lb suf) 0 (length pre + length suf) =
      Inr (replicate (length pre + length suf) Raw, ev_seq Dtor 0 (map (left_behind tr) (pre @ suf)))"
    using destroy_n_at [of _ "[]" "map (left_behind tr) (pre @ suf)" "[]" 0 "length pre + length suf"]
    by (simp add: comp_def)
  have lp: "length ?p \<le> length pre" and ls: "length ?s \<le> length suf"
    by (simp_all add: transferable_def takeWhile_length_le)
  have m1: "(mk (pre @ suf) 0)\<lparr>data_v := map ?lb ?p @ map Live (drop (length ?p) pre) @ map Live suf\<rparr>
      = mk (map (left_behind tr) ?p @ drop (length ?p) pre @ suf) 0"
    using lp by (simp add: mk_def comp_def)
  have m2: "(mk (pre @ suf) 0)\<lparr>data_v := map ?lb pre @ map ?lb ?s @ map Live (drop (length ?s) suf)\<rparr>
      = mk (map (left_behind tr) pre @ map (left_behind tr) ?s @ drop (length ?s) suf) 0"
    using ls by (simp add: mk_def comp_def)
  have m3: "\<lparr>data_v = map Live pre @ Live ?x # map Live suf @ replicate ?m Raw,
              capacity_v = ?n, size_v = Suc (length pre + length suf)\<rparr> = mk (pre @ ?x # suf) ?m"
    using lt by (simp add: mk_def)
  show ?thesis
    using lt lt' ne
    by (simp add: Emplace_def dst t1 d1 t2 d2 d3 m1 m2 m3 Let_def del: destroy_n.simps)
qed


lemma read_mid2 [simp]: "read (pre @ s # Live x # post) (Suc (length pre)) = Inr x"
  using read_mid [of "pre @ [s]" x post] by simp

lemma upd_mid2 [simp]: "(pre @ s # t # post)[Suc (length pre) := u] = pre @ s # u # post"
  by (simp add: list_update_append)

lemma upd_seg [simp]:
  "(pre @ map Live mid @ s # post)[length pre + length mid := t] = pre @ map Live mid @ t # post"
  by (simp add: list_update_append)

lemma upd_seg2 [simp]:
  "(pre @ map Live mid @ s # s' # post)[Suc (length pre + length mid) := t]
     = pre @ map Live mid @ s # t # post"
  by (simp add: list_update_append)

lemma std_move_seg:
  "\<forall>x\<in>set xs. \<not> move_assign_throws tr x \<Longrightarrow>
   std_move tr (pre @ Live e # map Live xs @ post) (Suc (length pre)) (length xs) (length pre) =
     Ok (pre @ map Live xs @ Live (if xs = [] then e else moved_from tr (last xs)) # post)
        (ev_seq MoveAssign (length pre) xs)"
proof (induction xs arbitrary: pre e)
  case Nil
  show ?case by simp
next
  case (Cons x xs)
  then have nt: "\<forall>x\<in>set xs. \<not> move_assign_throws tr x" and ntx: "\<not> move_assign_throws tr x"
    by simp_all
  have IH: "std_move tr ((pre @ [Live x]) @ Live (moved_from tr x) # map Live xs @ post)
      (Suc (length (pre @ [Live x]))) (length xs) (length (pre @ [Live x])) =
     Ok ((pre @ [Live x]) @ map Live xs
           @ Live (if xs = [] then moved_from tr x else moved_from tr (last xs)) # post)
        (ev_seq MoveAssign (length (pre @ [Live x])) xs)"
    by (rule Cons.IH [OF nt])
  show ?case
    using IH ntx by simp
qed

lemma std_move_backward_seg:
  "\<forall>x\<in>set mid. \<not> move_assign_throws tr x \<Longrightarrow>
   std_move_backward tr (pre @ map Live mid @ Live h # post) (length pre) (length mid)
       (Suc (length pre + length mid)) =
     Ok (pre @ Live (if mid = [] then h else moved_from tr (hd mid)) # map Live mid @ post)
        (rev (ev_seq MoveAssign (Suc (length pre)) mid))"
proof (induction mid arbitrary: h post rule: rev_induct)
  case Nil
  show ?case by simp
next
  case (snoc m mid)
  then have nt: "\<forall>x\<in>set mid. \<not> move_assign_throws tr x" and ntm: "\<not> move_assign_throws tr m"
    by simp_all
  have IH: "std_move_backward tr (pre @ map Live mid @ Live (moved_from tr m) # Live m # post)
       (length pre) (length mid) (Suc (length pre + length mid)) =
     Ok (pre @ Live (if mid = [] then moved_from tr m else moved_from tr (hd mid))
           # map Live mid @ Live m # post)
        (rev (ev_seq MoveAssign (Suc (length pre)) mid))"
    by (rule snoc.IH [OF nt])
  have r1: "read (pre @ map Live mid @ Live m # Live h # post) (length pre + length mid) = Inr m"
    using read_mid [of "pre @ map Live mid" m "Live h # post"] by simp
  have r2: "read (pre @ map Live mid @ Live m # Live h # post) (Suc (length pre + length mid)) = Inr h"
    using read_mid2 [of "pre @ map Live mid" "Live m" h post] by simp
  have hd: "(if mid @ [m] = [] then h else moved_from tr (hd (mid @ [m])))
      = (if mid = [] then moved_from tr m else moved_from tr (hd mid))"
    by (cases mid) simp_all
  show ?case
    using IH ntm by (simp add: r1 r2 hd ev_seq_append)
qed


lemma Erase_mk:
  assumes "\<forall>x\<in>set suf. \<not> move_assign_throws tr x"
  shows "Erase tr (mk (pre @ e # suf) k) (length pre) =
     Ok (mk (pre @ suf) (Suc k), length pre)
        (ev_seq MoveAssign (length pre) suf
           @ [Dtor (Slot (length pre + length suf)) (if suf = [] then e else moved_from tr (last suf))])"
proof -
  let ?z = "if suf = [] then e else moved_from tr (last suf)"
  have mv: "std_move tr (map Live pre @ Live e # map Live suf @ replicate k Raw)
      (Suc (length pre)) (length suf) (length pre) =
     Ok (map Live pre @ map Live suf @ Live ?z # replicate k Raw) (ev_seq MoveAssign (length pre) suf)"
    using std_move_seg [OF assms, of "map Live pre" e "replicate k Raw"] by simp
  have d: "destroy_n (map Live pre @ map Live suf @ Live ?z # replicate k Raw)
      (length pre + length suf) (Suc 0) =
     Inr (map Live pre @ map Live suf @ Raw # replicate k Raw, [Dtor (Slot (length pre + length suf)) ?z])"
    using destroy_n_at [of _ "map Live pre @ map Live suf" "[?z]" "replicate k Raw"
        "length pre + length suf" "Suc 0"]
    by simp
  have m: "(mk (pre @ e # suf) k)\<lparr>data_v := map Live pre @ map Live suf @ Raw # replicate k Raw,
        size_v := length pre + length suf\<rparr> = mk (pre @ suf) (Suc k)"
    by (simp add: mk_def)
  show ?thesis
    by (simp add: Erase_def mv d m del: destroy_n.simps)
qed

lemma Emplace_spare_mk:
  assumes "\<not> init_throws tr a" and "\<not> rvalue_throws tr y"
    and "\<forall>x\<in>set mid. \<not> move_assign_throws tr x"
    and "\<not> move_assign_throws tr (init_value a)"
  shows "Emplace tr (mk (pre @ mid @ [y]) (Suc k)) (length pre) a =
     Ok (mk (pre @ init_value a # mid @ [y]) k, length pre)
        (init_event tr Temporary a # rvalue_ctor tr (Slot (Suc (length pre + length mid))) y
           # rev (ev_seq MoveAssign (Suc (length pre)) mid)
           @ [MoveAssign (Slot (length pre)) (init_value a),
              Dtor Temporary (moved_from tr (init_value a))])"
proof -
  let ?x = "init_value a"
  let ?h = "if mid = [] then rvalue_leaves tr y else moved_from tr (hd mid)"
  have r: "read (map Live pre @ map Live mid @ Live y # Raw # replicate k Raw)
      (length pre + length mid) = Inr y"
    using read_mid [of "map Live pre @ map Live mid" y "Raw # replicate k Raw"] by simp
  have u0: "(map Live pre @ map Live mid @ Live y # Raw # replicate k Raw)
        [length pre + length mid := Live (rvalue_leaves tr y), Suc (length pre + length mid) := Live y]
      = map Live pre @ map Live mid @ Live (rvalue_leaves tr y) # Live y # replicate k Raw"
    using upd_seg [of "map Live pre" mid "Live y" "Raw # replicate k Raw" "Live (rvalue_leaves tr y)"]
      upd_seg2 [of "map Live pre" mid "Live (rvalue_leaves tr y)" Raw "replicate k Raw" "Live y"]
    by simp
  have mb: "std_move_backward tr
      (map Live pre @ map Live mid @ Live (rvalue_leaves tr y) # Live y # replicate k Raw)
      (length pre) (length mid) (Suc (length pre + length mid)) =
     Ok (map Live pre @ Live ?h # map Live mid @ Live y # replicate k Raw)
        (rev (ev_seq MoveAssign (Suc (length pre)) mid))"
    using std_move_backward_seg [OF assms(3), of "map Live pre" "rvalue_leaves tr y" "Live y # replicate k Raw"]
    by simp
  have r2: "read (map Live pre @ Live ?h # map Live mid @ Live y # replicate k Raw) (length pre) = Inr ?h"
    using read_mid [of "map Live pre" ?h "map Live mid @ Live y # replicate k Raw"] by simp
  have u: "(map Live pre @ Live ?h # map Live mid @ Live y # replicate k Raw)[length pre := Live ?x]
      = map Live pre @ Live ?x # map Live mid @ Live y # replicate k Raw"
    using list_update_length [of "map Live pre" "Live ?h" _ "Live ?x"] by simp
  have m: "(mk (pre @ mid @ [y]) (Suc k))\<lparr>data_v := map Live pre @ Live ?x # map Live mid @ Live y # replicate k Raw,
        size_v := Suc (Suc (length pre + length mid))\<rparr> = mk (pre @ ?x # mid @ [y]) k"
    by (simp add: mk_def)
  show ?thesis
    using assms(1,2,4)
    by (simp add: Emplace_def r u0 mb r2 u m Let_def)
qed

lemma Emplace_end_mk:
  "Emplace tr (mk xs k) (length xs) a =
     (case append_new tr (mk xs k) a of
        Ok v' evs \<Rightarrow> Ok (v', size_v v' - 1) evs
      | Threw e v' evs \<Rightarrow> Threw e v' evs
      | Fault f \<Rightarrow> Fault f)"
  by (simp add: Emplace_def EmplaceBack_def split: outcome.splits)

section \<open>Facts shared by the claims\<close>

lemma transferable_all: "(\<forall>x\<in>set xs. \<not> transfer_throws tr x) \<longleftrightarrow> transferable tr xs = xs"
  by (auto simp: transferable_def takeWhile_eq_all_conv)

lemma at_mk: "i < length xs \<Longrightarrow> at (mk xs k) i = Inr (xs ! i)"
  by (simp add: at_def read_def nth_append)

lemma grown_capacity_max: "grown_capacity c = max 1 (2 * c)"
  by (simp add: grown_capacity_def)

lemma left_behind_id: "\<not> uses_move tr \<or> rvalue_copies tr \<Longrightarrow> map (left_behind tr) xs = xs"
  by (induction xs) (auto simp: left_behind_def rvalue_leaves_def)

lemma transferable_prefix: "transferable tr xs @ drop (length (transferable tr xs)) xs = xs"
  unfolding transferable_def by (metis takeWhile_dropWhile_id dropWhile_eq_drop)


lemmas rvalue_defs = rvalue_copies_def rvalue_throws_def rvalue_leaves_def rvalue_ctor_def

lemma T_nothrow_simps:
  "transfer_ctor T_nothrow = MoveCtor" "left_behind T_nothrow x = 0"
  "transfer_throws T_nothrow x = False" "uses_move T_nothrow"
  "copy_throws T_nothrow x = False" "move_throws T_nothrow x = False"
  "ctor_throws T_nothrow x = False" "copy_assign_throws T_nothrow x = False"
  "move_assign_throws T_nothrow x = False" "moved_from T_nothrow x = 0"
  "alloc_fails T_nothrow n = False"
  "rvalue_ctor T_nothrow = MoveCtor" "rvalue_leaves T_nothrow x = 0"
  "rvalue_throws T_nothrow x = False" "\<not> rvalue_copies T_nothrow"
  "is_nothrow_move_constructible T_nothrow" "is_copy_constructible T_nothrow"
  "sizeof_T T_nothrow = 4" "moves_on_growth T_nothrow"
  by (simp_all add: transfer_ctor_def left_behind_def transfer_throws_def uses_move_def
      rvalue_defs moves_on_growth_def T_nothrow_def)

lemma T_copying_simps:
  "transfer_ctor T_copying = CopyCtor" "left_behind T_copying x = x"
  "transfer_throws T_copying x = (x = 13)" "\<not> uses_move T_copying"
  "copy_throws T_copying x = (x = 13)" "move_throws T_copying x = False"
  "ctor_throws T_copying x = False" "copy_assign_throws T_copying x = False"
  "move_assign_throws T_copying x = False" "moved_from T_copying x = 0"
  "alloc_fails T_copying n = False"
  "rvalue_ctor T_copying = MoveCtor" "rvalue_leaves T_copying x = 0"
  "rvalue_throws T_copying x = False" "\<not> rvalue_copies T_copying"
  "\<not> is_nothrow_move_constructible T_copying" "is_copy_constructible T_copying"
  "sizeof_T T_copying = 4" "\<not> moves_on_growth T_copying"
  by (simp_all add: transfer_ctor_def left_behind_def transfer_throws_def uses_move_def
      rvalue_defs moves_on_growth_def T_copying_def)

lemma T_move_only_simps:
  "transfer_ctor T_move_only = MoveCtor" "left_behind T_move_only x = 0"
  "transfer_throws T_move_only x = (x = 13)" "uses_move T_move_only"
  "copy_throws T_move_only x = False" "move_throws T_move_only x = (x = 13)"
  "ctor_throws T_move_only x = False" "copy_assign_throws T_move_only x = False"
  "move_assign_throws T_move_only x = False" "moved_from T_move_only x = 0"
  "alloc_fails T_move_only n = False"
  "rvalue_ctor T_move_only = MoveCtor" "rvalue_leaves T_move_only x = 0"
  "rvalue_throws T_move_only x = (x = 13)" "\<not> rvalue_copies T_move_only"
  "\<not> is_nothrow_move_constructible T_move_only" "\<not> is_copy_constructible T_move_only"
  "sizeof_T T_move_only = 4" "moves_on_growth T_move_only"
  by (simp_all add: transfer_ctor_def left_behind_def transfer_throws_def uses_move_def
      rvalue_defs moves_on_growth_def T_move_only_def)

lemma T_copy_only_simps:
  "transfer_ctor T_copy_only = CopyCtor" "left_behind T_copy_only x = x"
  "transfer_throws T_copy_only x = False" "uses_move T_copy_only"
  "copy_throws T_copy_only x = False" "move_throws T_copy_only x = False"
  "ctor_throws T_copy_only x = False" "copy_assign_throws T_copy_only x = False"
  "move_assign_throws T_copy_only x = False" "moved_from T_copy_only x = x"
  "alloc_fails T_copy_only n = False"
  "rvalue_ctor T_copy_only = CopyCtor" "rvalue_leaves T_copy_only x = x"
  "rvalue_throws T_copy_only x = False" "rvalue_copies T_copy_only"
  "is_nothrow_move_constructible T_copy_only" "is_copy_constructible T_copy_only"
  "sizeof_T T_copy_only = 4" "\<not> moves_on_growth T_copy_only"
  by (simp_all add: transfer_ctor_def left_behind_def transfer_throws_def uses_move_def
      rvalue_defs moves_on_growth_def T_copy_only_def)

section \<open>Reserve\<close>

text \<open>
  The byte size that \<^verbatim>\<open>Reserve\<close> passes to \<^verbatim>\<open>operator new\<close> can wrap. For an
  element type of four bytes and \<open>n = 2\<^sup>6\<^sup>2 + 1\<close> the block has one slot: on a vector of
  two elements the transfer constructs the second element outside the block, and on a
  vector of one element \<^verbatim>\<open>Reserve\<close> returns with \<^verbatim>\<open>capacity_\<close> set to \<open>n\<close>
  over a block of one slot, so that the next \<^verbatim>\<open>PushBack\<close> constructs outside it.
\<close>

lemma Reserve_wrapped_allocation:
  "invar \<lparr>data_v = [Live (5::nat), Live 6], capacity_v = 2, size_v = 2\<rparr> \<and>
   \<not> fits T_nothrow 4611686018427387905 \<and>
   length (allocated T_nothrow 4611686018427387905) = 1 \<and>
   Reserve T_nothrow \<lparr>data_v = [Live 5, Live 6], capacity_v = 2, size_v = 2\<rparr> 4611686018427387905
     = Fault (OutOfBounds 1) \<and>
   Reserve T_nothrow \<lparr>data_v = [Live 5], capacity_v = 1, size_v = 1\<rparr> 4611686018427387905
     = Ok \<lparr>data_v = [Live 5], capacity_v = 4611686018427387905, size_v = 1\<rparr>
         [Allocate 4611686018427387905, MoveCtor (Slot 0) 5, Dtor (Slot 0) 0, Deallocate 1] \<and>
   \<not> invar \<lparr>data_v = [Live (5::nat)], capacity_v = 4611686018427387905, size_v = 1\<rparr> \<and>
   PushBack_copy T_nothrow \<lparr>data_v = [Live 5], capacity_v = 4611686018427387905, size_v = 1\<rparr> 7
     = Fault (OutOfBounds 1)"
proof -
  have a: "allocated T_nothrow 4611686018427387905 = [Raw]"
    by (simp add: allocated_def T_nothrow_simps)
  have 1: "invar \<lparr>data_v = [Live (5::nat), Live 6], capacity_v = 2, size_v = 2\<rparr>"
    by (simp add: invar_def)
  have 2: "\<not> fits T_nothrow 4611686018427387905"
    by (simp add: fits_def T_nothrow_simps)
  have 3: "Reserve T_nothrow \<lparr>data_v = [Live 5, Live 6], capacity_v = 2, size_v = 2\<rparr> 4611686018427387905
     = Fault (OutOfBounds 1)"
    by (simp add: Reserve_def transfer_n_def uninitialized_move_n_def a Capacity_def read_def
        T_nothrow_simps numeral_2_eq_2)
  have 4: "Reserve T_nothrow \<lparr>data_v = [Live 5], capacity_v = 1, size_v = 1\<rparr> 4611686018427387905
     = Ok \<lparr>data_v = [Live 5], capacity_v = 4611686018427387905, size_v = 1\<rparr>
         [Allocate 4611686018427387905, MoveCtor (Slot 0) 5, Dtor (Slot 0) 0, Deallocate 1]"
    by (simp add: Reserve_def transfer_n_def uninitialized_move_n_def a Capacity_def read_def
        T_nothrow_simps)
  have 5: "\<not> invar \<lparr>data_v = [Live (5::nat)], capacity_v = 4611686018427387905, size_v = 1\<rparr>"
    by (simp add: invar_def)
  have 6: "PushBack_copy T_nothrow \<lparr>data_v = [Live 5], capacity_v = 4611686018427387905, size_v = 1\<rparr> 7
     = Fault (OutOfBounds 1)"
    by (simp add: PushBack_copy_def append_new_def Capacity_def)
  from a 1 2 3 4 5 6 show ?thesis by simp
qed





section \<open>PushBack\<close>

lemma append_new_full:
  assumes "invar v" and "Size v = Capacity v"
    and "\<not> alloc_fails tr (max 1 (2 * Capacity v))" and "\<not> init_throws tr a"
    and "\<forall>y\<in>set (elems v). \<not> transfer_throws tr y"
  shows "\<exists>v'. append_new tr v a =
        Ok v' (Allocate (max 1 (2 * Capacity v)) # init_event tr (Slot (Size v)) a
                 # ev_seq (transfer_ctor tr) 0 (elems v)
                 @ ev_seq Dtor 0 (map (left_behind tr) (elems v)) @ [Deallocate (Capacity v)]) \<and>
      invar v' \<and> Capacity v' = max 1 (2 * Capacity v) \<and> Size v' = Size v + 1 \<and>
      elems v' = elems v @ [init_value a]"
proof -
  obtain xs k where v: "v = mk xs k"
    using invar_is_mk [OF assms(1)] by blast
  from assms(2) have k: "k = 0" by (simp add: v Size_def)
  have g: "max (Suc 0) (2 * length xs) = grown_capacity (length xs)"
    by (simp add: grown_capacity_max)
  from assms(3-5) grow_pos [of "length xs"] show ?thesis
    unfolding v k
    by (simp add: append_new_full_mk Size_def g transferable_all)
qed

text \<open>
  Claim C4. On a well-formed vector with \<open>Size() = Capacity()\<close>, both overloads of
  \<^verbatim>\<open>PushBack(x)\<close> return (when the allocation succeeds and neither the new element
  nor a transferred one throws) a vector of capacity \<open>max 1 (2 * Capacity())\<close>, whose
  first \<open>Size()\<close> elements are the old contents and whose last element is \<open>x\<close>.
  In the trace the construction of \<open>x\<close> in slot \<open>Size()\<close> follows the allocation
  directly and precedes the transfer of every old element. The overload for
  \<^verbatim>\<open>T&&\<close> constructs \<open>x\<close> from an rvalue: with the move constructor, or with the
  copy constructor when \<open>T\<close> has no move constructor.
\<close>

theorem PushBack_at_capacity:
  assumes "invar v" and "Size v = Capacity v"
    and "\<not> alloc_fails tr (max 1 (2 * Capacity v))"
    and "\<forall>y\<in>set (elems v). \<not> transfer_throws tr y"
  shows "(\<not> copy_throws tr x \<longrightarrow>
      (\<exists>v'. PushBack_copy tr v x =
          Ok v' (Allocate (max 1 (2 * Capacity v)) # CopyCtor (Slot (Size v)) x
                   # ev_seq (transfer_ctor tr) 0 (elems v)
                   @ ev_seq Dtor 0 (map (left_behind tr) (elems v)) @ [Deallocate (Capacity v)]) \<and>
        invar v' \<and> Capacity v' = max 1 (2 * Capacity v) \<and> Size v' = Size v + 1 \<and>
        take (Size v) (elems v') = elems v \<and> last (elems v') = x)) \<and>
    (\<not> rvalue_throws tr x \<longrightarrow>
      (\<exists>v'. PushBack_move tr v x =
          Ok v' (Allocate (max 1 (2 * Capacity v)) # rvalue_ctor tr (Slot (Size v)) x
                   # ev_seq (transfer_ctor tr) 0 (elems v)
                   @ ev_seq Dtor 0 (map (left_behind tr) (elems v)) @ [Deallocate (Capacity v)]) \<and>
        invar v' \<and> Capacity v' = max 1 (2 * Capacity v) \<and> Size v' = Size v + 1 \<and>
        take (Size v) (elems v') = elems v \<and> last (elems v') = x))"
proof -
  have len: "length (elems v) = Size v"
    using size_elems [OF assms(1)] by (simp add: Size_def)
  have c: "\<not> copy_throws tr x \<longrightarrow> \<not> init_throws tr (FromCopy x)"
    and m: "\<not> rvalue_throws tr x \<longrightarrow> \<not> init_throws tr (FromMove x)"
    by simp_all
  show ?thesis
    using append_new_full [OF assms(1,2,3) _ assms(4), of "FromCopy x"]
      append_new_full [OF assms(1,2,3) _ assms(4), of "FromMove x"] len
    by (auto simp: PushBack_copy_def PushBack_move_def)
qed

theorem PushBack_at_capacity_witness:
  "invar \<lparr>data_v = [Live (5::nat), Live 6], capacity_v = 2, size_v = 2\<rparr> \<and>
   (\<exists>v'. PushBack_copy T_nothrow \<lparr>data_v = [Live 5, Live 6], capacity_v = 2, size_v = 2\<rparr> 7 =
       Ok v' [Allocate 4, CopyCtor (Slot 2) 7, MoveCtor (Slot 0) 5, MoveCtor (Slot 1) 6,
              Dtor (Slot 0) 0, Dtor (Slot 1) 0, Deallocate 2] \<and>
     Capacity v' = 4 \<and> Size v' = 3 \<and> take 2 (elems v') = [5, 6] \<and> last (elems v') = 7) \<and>
   (\<exists>v'. PushBack_move T_copying \<lparr>data_v = [Live 5, Live 6], capacity_v = 2, size_v = 2\<rparr> 7 =
       Ok v' [Allocate 4, MoveCtor (Slot 2) 7, CopyCtor (Slot 0) 5, CopyCtor (Slot 1) 6,
              Dtor (Slot 0) 5, Dtor (Slot 1) 6, Deallocate 2] \<and>
     Capacity v' = 4 \<and> Size v' = 3 \<and> take 2 (elems v') = [5, 6] \<and> last (elems v') = 7) \<and>
   (\<exists>v'. PushBack_move T_copy_only \<lparr>data_v = [Live 5, Live 6], capacity_v = 2, size_v = 2\<rparr> 7 =
       Ok v' [Allocate 4, CopyCtor (Slot 2) 7, CopyCtor (Slot 0) 5, CopyCtor (Slot 1) 6,
              Dtor (Slot 0) 5, Dtor (Slot 1) 6, Deallocate 2] \<and>
     Capacity v' = 4 \<and> Size v' = 3 \<and> take 2 (elems v') = [5, 6] \<and> last (elems v') = 7)"
proof -
  let ?v = "\<lparr>data_v = [Live (5::nat), Live 6], capacity_v = 2, size_v = 2\<rparr>"
  have inv: "invar ?v" by (simp add: invar_def)
  have cap: "Capacity ?v = 2" and sz: "Size ?v = 2" and el: "elems ?v = [5, 6]"
    by (simp_all add: Capacity_def Size_def elems_def map_filter_simps)
  have full: "Size ?v = Capacity ?v" by (simp add: Capacity_def Size_def)
  have nt: "\<forall>y\<in>set (elems ?v). \<not> transfer_throws T_nothrow y"
    by (simp add: T_nothrow_simps)
  have na: "\<not> alloc_fails T_nothrow (max 1 (2 * Capacity ?v))" by (simp add: T_nothrow_simps)
  have nc: "\<not> copy_throws T_nothrow 7" by (simp add: T_nothrow_simps)
  have a: "\<exists>v'. PushBack_copy T_nothrow ?v 7 =
       Ok v' [Allocate 4, CopyCtor (Slot 2) 7, MoveCtor (Slot 0) 5, MoveCtor (Slot 1) 6,
              Dtor (Slot 0) 0, Dtor (Slot 1) 0, Deallocate 2] \<and>
     Capacity v' = 4 \<and> Size v' = 3 \<and> take 2 (elems v') = [5, 6] \<and> last (elems v') = 7"
    using PushBack_at_capacity [OF inv full na nt, of 7] nc
    by (auto simp: cap sz el T_nothrow_simps)
  have nt2: "\<forall>y\<in>set (elems ?v). \<not> transfer_throws T_copying y"
    by (simp add: el T_copying_simps)
  have na2: "\<not> alloc_fails T_copying (max 1 (2 * Capacity ?v))" by (simp add: T_copying_simps)
  have nm: "\<not> rvalue_throws T_copying 7" by (simp add: T_copying_simps)
  have b: "\<exists>v'. PushBack_move T_copying ?v 7 =
       Ok v' [Allocate 4, MoveCtor (Slot 2) 7, CopyCtor (Slot 0) 5, CopyCtor (Slot 1) 6,
              Dtor (Slot 0) 5, Dtor (Slot 1) 6, Deallocate 2] \<and>
     Capacity v' = 4 \<and> Size v' = 3 \<and> take 2 (elems v') = [5, 6] \<and> last (elems v') = 7"
    using PushBack_at_capacity [OF inv full na2 nt2, of 7] nm
    by (auto simp: cap sz el T_copying_simps)
  have nt3: "\<forall>y\<in>set (elems ?v). \<not> transfer_throws T_copy_only y"
    by (simp add: el T_copy_only_simps)
  have na3: "\<not> alloc_fails T_copy_only (max 1 (2 * Capacity ?v))" by (simp add: T_copy_only_simps)
  have nm3: "\<not> rvalue_throws T_copy_only 7" by (simp add: T_copy_only_simps)
  have c: "\<exists>v'. PushBack_move T_copy_only ?v 7 =
       Ok v' [Allocate 4, CopyCtor (Slot 2) 7, CopyCtor (Slot 0) 5, CopyCtor (Slot 1) 6,
              Dtor (Slot 0) 5, Dtor (Slot 1) 6, Deallocate 2] \<and>
     Capacity v' = 4 \<and> Size v' = 3 \<and> take 2 (elems v') = [5, 6] \<and> last (elems v') = 7"
    using PushBack_at_capacity [OF inv full na3 nt3, of 7] nm3
    by (auto simp: cap sz el T_copy_only_simps)
  from inv a b c show ?thesis by blast
qed

section \<open>Copy construction\<close>

lemma copy_n_0 [simp]: "uninitialized_copy_n tr src first 0 dst d_first = Ok dst []"
  by (simp add: uninitialized_copy_n_def)

lemma Vector_copy_mk:
  "Vector_copy tr (mk xs k) =
     (if xs \<noteq> [] \<and> alloc_fails tr (length xs) then Threw bad_alloc () []
      else if takeWhile (\<lambda>x. \<not> copy_throws tr x) xs = xs
      then Ok (mk xs 0) (Allocate (length xs) # ev_seq CopyCtor 0 xs)
      else Threw elem_exn ()
             (Allocate (length xs) # ev_seq CopyCtor 0 (takeWhile (\<lambda>x. \<not> copy_throws tr x) xs)
                @ ev_seq Dtor 0 (takeWhile (\<lambda>x. \<not> copy_throws tr x) xs) @ [Deallocate (length xs)]))"
proof -
  have c: "uninitialized_copy_n tr (map Live xs @ replicate k Raw) 0 (length xs)
      (replicate (length xs) Raw) 0 =
   (let ys = takeWhile (\<lambda>x. \<not> copy_throws tr x) xs in
    if ys = xs
    then Ok (map Live xs) (ev_seq CopyCtor 0 xs)
    else Threw elem_exn (replicate (length xs) Raw) (ev_seq CopyCtor 0 ys @ ev_seq Dtor 0 ys))"
    using copy_n_seg [of tr "[]" xs "replicate k Raw" "[]" "[]"] by (simp add: Let_def)
  have m: "\<lparr>data_v = map Live xs, capacity_v = length xs, size_v = length xs\<rparr> = mk xs 0"
    by (simp add: mk_def)
  show ?thesis
    by (simp add: Vector_copy_def c m Let_def)
qed

text \<open>
  Claim C6. Copy construction from a well-formed vector \<open>a\<close> allocates exactly
  \<open>a.Size()\<close> slots and copy-constructs every element in order: the new vector has
  the capacity and size \<open>a.Size()\<close> and the contents of \<open>a\<close>, index by index. The
  argument is read only. When the copy of an element throws, the copies made so far are
  destroyed, the allocation is released, and no vector has been constructed.
\<close>

theorem copy_construct_strong:
  assumes "invar a"
  shows "(Size a \<noteq> 0 \<and> alloc_fails tr (Size a) \<longrightarrow> Vector_copy tr a = Threw bad_alloc () []) \<and>
    (\<not> (Size a \<noteq> 0 \<and> alloc_fails tr (Size a)) \<and> (\<forall>x\<in>set (elems a). \<not> copy_throws tr x) \<longrightarrow>
       (\<exists>b. Vector_copy tr a = Ok b (Allocate (Size a) # ev_seq CopyCtor 0 (elems a)) \<and>
          invar b \<and> Capacity b = Size a \<and> Size b = Size a \<and> elems b = elems a \<and>
          (\<forall>i<Size a. at b i = at a i))) \<and>
    (\<not> (Size a \<noteq> 0 \<and> alloc_fails tr (Size a)) \<and> (\<exists>x\<in>set (elems a). copy_throws tr x) \<longrightarrow>
       Vector_copy tr a =
         Threw elem_exn ()
           (Allocate (Size a)
              # ev_seq CopyCtor 0 (takeWhile (\<lambda>x. \<not> copy_throws tr x) (elems a))
              @ ev_seq Dtor 0 (takeWhile (\<lambda>x. \<not> copy_throws tr x) (elems a))
              @ [Deallocate (Size a)]))"
proof -
  obtain xs k where a: "a = mk xs k"
    using invar_is_mk [OF assms] by blast
  have 1: "Size a \<noteq> 0 \<and> alloc_fails tr (Size a) \<longrightarrow> Vector_copy tr a = Threw bad_alloc () []"
    by (simp add: a Vector_copy_mk Size_def)
  have 2: "\<not> (Size a \<noteq> 0 \<and> alloc_fails tr (Size a)) \<and> (\<forall>x\<in>set (elems a). \<not> copy_throws tr x) \<longrightarrow>
       (\<exists>b. Vector_copy tr a = Ok b (Allocate (Size a) # ev_seq CopyCtor 0 (elems a)) \<and>
          invar b \<and> Capacity b = Size a \<and> Size b = Size a \<and> elems b = elems a \<and>
          (\<forall>i<Size a. at b i = at a i))"
    by (simp add: a Vector_copy_mk Size_def at_mk)
  have 3: "\<not> (Size a \<noteq> 0 \<and> alloc_fails tr (Size a)) \<and> (\<exists>x\<in>set (elems a). copy_throws tr x) \<longrightarrow>
       Vector_copy tr a =
         Threw elem_exn ()
           (Allocate (Size a)
              # ev_seq CopyCtor 0 (takeWhile (\<lambda>x. \<not> copy_throws tr x) (elems a))
              @ ev_seq Dtor 0 (takeWhile (\<lambda>x. \<not> copy_throws tr x) (elems a))
              @ [Deallocate (Size a)])"
    by (auto simp: a Vector_copy_mk Size_def)
  from 1 2 3 show ?thesis by blast
qed

theorem copy_construct_strong_witness:
  "invar \<lparr>data_v = [Live (5::nat), Live 6, Raw], capacity_v = 3, size_v = 2\<rparr> \<and>
   (\<exists>b. Vector_copy T_nothrow \<lparr>data_v = [Live 5, Live 6, Raw], capacity_v = 3, size_v = 2\<rparr> =
       Ok b [Allocate 2, CopyCtor (Slot 0) 5, CopyCtor (Slot 1) 6] \<and>
       Capacity b = 2 \<and> Size b = 2 \<and> elems b = [5, 6]) \<and>
   Vector_copy T_copying \<lparr>data_v = [Live 5, Live 13, Live 6], capacity_v = 3, size_v = 3\<rparr> =
     Threw elem_exn () [Allocate 3, CopyCtor (Slot 0) 5, Dtor (Slot 0) 5, Deallocate 3]"
proof -
  let ?a = "\<lparr>data_v = [Live (5::nat), Live 6, Raw], capacity_v = 3, size_v = 2\<rparr>"
  let ?c = "\<lparr>data_v = [Live (5::nat), Live 13, Live 6], capacity_v = 3, size_v = 3\<rparr>"
  have a: "invar ?a" "elems ?a = [5, 6]" "Size ?a = 2"
    by (simp_all add: invar_def elems_def map_filter_simps Size_def Capacity_def)
  have c: "invar ?c" "elems ?c = [5, 13, 6]" "Size ?c = 3"
    by (simp_all add: invar_def elems_def map_filter_simps Size_def Capacity_def)
  have 1: "\<exists>b. Vector_copy T_nothrow ?a = Ok b [Allocate 2, CopyCtor (Slot 0) 5, CopyCtor (Slot 1) 6] \<and>
       Capacity b = 2 \<and> Size b = 2 \<and> elems b = [5, 6]"
    using copy_construct_strong [OF a(1), of T_nothrow]
    by (auto simp: a T_nothrow_simps)
  have 2: "Vector_copy T_copying ?c =
     Threw elem_exn () [Allocate 3, CopyCtor (Slot 0) 5, Dtor (Slot 0) 5, Deallocate 3]"
    using copy_construct_strong [OF c(1), of T_copying]
    by (simp add: c T_copying_simps)
  from a(1) 1 2 show ?thesis by blast
qed

section \<open>Erase\<close>

lemma Erase_at:
  assumes "pos < length xs" and "\<forall>x\<in>set (drop (Suc pos) xs). \<not> move_assign_throws tr x"
  shows "Erase tr (mk xs k) pos =
     Ok (mk (take pos xs @ drop (Suc pos) xs) (Suc k), pos)
        (ev_seq MoveAssign pos (drop (Suc pos) xs)
           @ [Dtor (Slot (length xs - 1))
                (if pos = length xs - 1 then xs ! pos else moved_from tr (last xs))])"
proof -
  let ?pre = "take pos xs" and ?suf = "drop (Suc pos) xs"
  have xs: "xs = ?pre @ xs ! pos # ?suf"
    using assms(1) by (rule id_take_nth_drop)
  have lp: "length ?pre = pos"
    using assms(1) by simp
  have ls: "pos + length ?suf = length xs - 1"
    using assms(1) by simp
  have e: "?suf = [] \<longleftrightarrow> pos = length xs - 1"
    using assms(1) by auto
  have l: "?suf \<noteq> [] \<Longrightarrow> last ?suf = last xs"
    using assms(1) by simp
  have "Erase tr (mk (?pre @ xs ! pos # ?suf) k) (length ?pre) =
     Ok (mk (?pre @ ?suf) (Suc k), length ?pre)
        (ev_seq MoveAssign (length ?pre) ?suf
           @ [Dtor (Slot (length ?pre + length ?suf))
                (if ?suf = [] then xs ! pos else moved_from tr (last ?suf))])"
    by (rule Erase_mk [OF assms(2)])
  then show ?thesis
    using l unfolding lp ls e xs [symmetric] by auto
qed

text \<open>
  Claim C7. On a well-formed vector and a position \<open>pos < Size()\<close>, \<^verbatim>\<open>Erase(pos)\<close>
  (when no move assignment throws) move-assigns every element after \<open>pos\<close> one slot to
  the left, in order, then destroys the object in the last slot, and returns \<open>pos\<close>.
  The size has dropped by one, the contents are the old ones without the element at
  \<open>pos\<close>, the returned position holds the old successor of the erased element, and it
  is \<open>end()\<close> exactly when the last element was erased.
\<close>

theorem Erase_shifts_left:
  assumes "invar v" and "pos < Size v"
    and "\<forall>x\<in>set (drop (Suc pos) (elems v)). \<not> move_assign_throws tr x"
  shows "\<exists>v'. Erase tr v pos =
        Ok (v', pos)
          (ev_seq MoveAssign pos (drop (Suc pos) (elems v))
             @ [Dtor (Slot (Size v - 1))
                  (if pos = Size v - 1 then elems v ! pos else moved_from tr (last (elems v)))]) \<and>
      invar v' \<and> Size v' = Size v - 1 \<and> Capacity v' = Capacity v \<and>
      elems v' = take pos (elems v) @ drop (Suc pos) (elems v) \<and>
      (pos = end_v v' \<longleftrightarrow> pos = Size v - 1) \<and>
      (pos < Size v - 1 \<longrightarrow> at v' pos = at v (Suc pos))"
proof -
  obtain xs k where v: "v = mk xs k"
    using invar_is_mk [OF assms(1)] by blast
  from assms(2) have p: "pos < length xs" by (simp add: v Size_def)
  from assms(3) have nt: "\<forall>x\<in>set (drop (Suc pos) xs). \<not> move_assign_throws tr x"
    by (simp add: v)
  have at': "pos < length xs - 1 \<longrightarrow>
      at (mk (take pos xs @ drop (Suc pos) xs) (Suc k)) pos = at (mk xs k) (Suc pos)"
    using p by (auto simp: at_mk nth_append)
  show ?thesis
    using p at' unfolding v
    by (auto simp: Erase_at [OF p nt] Size_def end_v_def)
qed

theorem Erase_shifts_left_witness:
  "invar \<lparr>data_v = [Live (5::nat), Live 6, Live 7, Raw], capacity_v = 4, size_v = 3\<rparr> \<and>
   (\<exists>v'. Erase T_nothrow \<lparr>data_v = [Live 5, Live 6, Live 7, Raw], capacity_v = 4, size_v = 3\<rparr> 0 =
       Ok (v', 0) [MoveAssign (Slot 0) 6, MoveAssign (Slot 1) 7, Dtor (Slot 2) 0] \<and>
       Size v' = 2 \<and> Capacity v' = 4 \<and> elems v' = [6, 7] \<and> end_v v' \<noteq> 0) \<and>
   (\<exists>v'. Erase T_nothrow \<lparr>data_v = [Live 5, Live 6, Live 7, Raw], capacity_v = 4, size_v = 3\<rparr> 2 =
       Ok (v', 2) [Dtor (Slot 2) 7] \<and>
       Size v' = 2 \<and> Capacity v' = 4 \<and> elems v' = [5, 6] \<and> end_v v' = 2)"
proof -
  let ?v = "\<lparr>data_v = [Live (5::nat), Live 6, Live 7, Raw], capacity_v = 4, size_v = 3\<rparr>"
  have v: "invar ?v" "elems ?v = [5, 6, 7]" "Size ?v = 3" "Capacity ?v = 4"
    by (simp_all add: invar_def elems_def map_filter_simps Size_def Capacity_def)
  have 1: "\<exists>v'. Erase T_nothrow ?v 0 =
       Ok (v', 0) [MoveAssign (Slot 0) 6, MoveAssign (Slot 1) 7, Dtor (Slot 2) 0] \<and>
       Size v' = 2 \<and> Capacity v' = 4 \<and> elems v' = [6, 7] \<and> end_v v' \<noteq> 0"
    using Erase_shifts_left [OF v(1), of 0 T_nothrow]
    by (auto simp: v T_nothrow_simps)
  have 2: "\<exists>v'. Erase T_nothrow ?v 2 =
       Ok (v', 2) [Dtor (Slot 2) 7] \<and>
       Size v' = 2 \<and> Capacity v' = 4 \<and> elems v' = [5, 6] \<and> end_v v' = 2"
    using Erase_shifts_left [OF v(1), of 2 T_nothrow]
    by (auto simp: v T_nothrow_simps)
  from v(1) 1 2 show ?thesis by blast
qed

section \<open>Move or copy on growth\<close>

lemma num_Cons [simp]:
  "num_moved (e # evs) = (if is_move_ctor e then 1 else 0) + num_moved evs"
  "num_copied (e # evs) = (if is_copy_ctor e then 1 else 0) + num_copied evs"
  by (simp_all add: num_moved_def num_copied_def)

lemma num_Nil [simp]: "num_moved [] = 0" "num_copied [] = 0"
  by (simp_all add: num_moved_def num_copied_def)

lemma num_append [simp]:
  "num_moved (evs @ evs') = num_moved evs + num_moved evs'"
  "num_copied (evs @ evs') = num_copied evs + num_copied evs'"
  by (simp_all add: num_moved_def num_copied_def)

lemma num_ev_seq [simp]:
  "num_moved (ev_seq MoveCtor n xs) = length xs" "num_copied (ev_seq MoveCtor n xs) = 0"
  "num_moved (ev_seq CopyCtor n xs) = 0" "num_copied (ev_seq CopyCtor n xs) = length xs"
  "num_moved (ev_seq Dtor n xs) = 0" "num_copied (ev_seq Dtor n xs) = 0"
  by (induction xs arbitrary: n) simp_all

lemma moves_on_growth_iff: "moves_on_growth tr \<longleftrightarrow> uses_move tr \<and> \<not> rvalue_copies tr"
  by (auto simp: moves_on_growth_def uses_move_def rvalue_copies_def)

lemma num_transfer:
  "num_moved (ev_seq (transfer_ctor tr) n xs) = transfer_moves tr (mk xs k)"
  "num_copied (ev_seq (transfer_ctor tr) n xs) = transfer_copies tr (mk xs k)"
  by (simp_all add: transfer_ctor_def rvalue_ctor_def moves_on_growth_iff
      transfer_moves_def transfer_copies_def)

lemma num_init_moves [simp]: "is_move_ctor (init_event tr p a) \<longleftrightarrow> init_moves tr a = 1"
  by (cases a) (simp_all add: rvalue_ctor_def)

lemma num_init_copies [simp]: "is_copy_ctor (init_event tr p a) \<longleftrightarrow> init_copies tr a = 1"
  by (cases a) (simp_all add: rvalue_ctor_def)

lemma init_01:
  "init_moves tr a \<noteq> 1 \<Longrightarrow> init_moves tr a = 0" "init_copies tr a \<noteq> 1 \<Longrightarrow> init_copies tr a = 0"
  by (cases a, simp_all split: if_splits)+

text \<open>
  The counters of a transfer that returns, whatever the buffers are: also into a block
  shorter than \<^verbatim>\<open>capacity_\<close>.
\<close>

lemma destroy_n_counts:
  "destroy_n buf first n = Inr (b, evs) \<Longrightarrow> num_moved evs = 0 \<and> num_copied evs = 0"
proof (induction n arbitrary: buf first b evs)
  case 0
  then show ?case by simp
next
  case (Suc n)
  then show ?case
    by (auto split: sum.splits)
qed

lemma copy_loop_counts_aux:
  "case uninitialized_copy_loop tr src first count dst cur of
     Ok r evs \<Rightarrow> num_moved evs = 0 \<and> num_copied evs = count
   | Threw e s evs \<Rightarrow> True
   | Fault f \<Rightarrow> True"
proof (induction count arbitrary: first dst cur)
  case 0
  show ?case by simp
next
  case (Suc count)
  show ?case
  proof (cases "read src first")
    case (Inl f)
    then show ?thesis by simp
  next
    case (Inr x)
    show ?thesis
    proof (cases "uninitialized_copy_loop tr src (Suc first) count (dst[cur := Live x]) (Suc cur)")
      case (Ok r evs)
      with Suc.IH [of "Suc first" "dst[cur := Live x]" "Suc cur"]
      have "num_moved evs = 0 \<and> num_copied evs = count" by simp
      with Ok Inr show ?thesis by simp
    next
      case (Threw e s evs)
      with Inr show ?thesis by simp
    next
      case (Fault f)
      with Inr show ?thesis by simp
    qed
  qed
qed

lemma copy_loop_counts:
  "uninitialized_copy_loop tr src first count dst cur = Ok r evs \<Longrightarrow>
     num_moved evs = 0 \<and> num_copied evs = count"
  using copy_loop_counts_aux [where tr = tr and src = src and first = first and count = count
      and dst = dst and cur = cur] by simp

lemma move_loop_counts_aux:
  "case uninitialized_move_loop tr src first count dst cur of
     Ok r evs \<Rightarrow> num_moved evs = (if rvalue_copies tr then 0 else count) \<and>
                 num_copied evs = (if rvalue_copies tr then count else 0)
   | Threw e s evs \<Rightarrow> True
   | Fault f \<Rightarrow> True"
proof (induction count arbitrary: src first dst cur)
  case 0
  show ?case by simp
next
  case (Suc count)
  show ?case
  proof (cases "read src first")
    case (Inl f)
    then show ?thesis by simp
  next
    case (Inr x)
    show ?thesis
    proof (cases "uninitialized_move_loop tr (src[first := Live (rvalue_leaves tr x)]) (Suc first)
        count (dst[cur := Live x]) (Suc cur)")
      case (Ok r evs)
      with Suc.IH [of "src[first := Live (rvalue_leaves tr x)]" "Suc first"
          "dst[cur := Live x]" "Suc cur"]
      have "num_moved evs = (if rvalue_copies tr then 0 else count) \<and>
            num_copied evs = (if rvalue_copies tr then count else 0)" by simp
      with Ok Inr show ?thesis by (simp add: rvalue_ctor_def)
    next
      case (Threw e s evs)
      with Inr show ?thesis by simp
    next
      case (Fault f)
      with Inr show ?thesis by simp
    qed
  qed
qed

lemma move_loop_counts:
  "uninitialized_move_loop tr src first count dst cur = Ok r evs \<Longrightarrow>
     num_moved evs = (if rvalue_copies tr then 0 else count) \<and>
     num_copied evs = (if rvalue_copies tr then count else 0)"
  using move_loop_counts_aux [where tr = tr and src = src and first = first and count = count
      and dst = dst and cur = cur] by simp

lemma transfer_n_counts:
  assumes "transfer_n tr src first count dst d_first = Ok r evs"
  shows "num_moved evs = (if moves_on_growth tr then count else 0) \<and>
     num_copied evs = (if moves_on_growth tr then 0 else count)"
proof (cases "uses_move tr")
  case True
  with assms obtain r' where "uninitialized_move_loop tr src first count dst d_first = Ok r' evs"
    by (auto simp: transfer_n_def uninitialized_move_n_def uses_move_def
        split: outcome.splits sum.splits)
  from move_loop_counts [OF this] True show ?thesis
    by (simp add: moves_on_growth_iff)
next
  case False
  with assms obtain r' where "uninitialized_copy_loop tr src first count dst d_first = Ok r' evs"
    by (auto simp: transfer_n_def uninitialized_copy_n_def uses_move_def
        split: outcome.splits sum.splits)
  from copy_loop_counts [OF this] False show ?thesis
    by (simp add: moves_on_growth_iff)
qed

lemma Reserve_counts:
  assumes "Capacity v < n" and "Reserve tr v n = Ok v' evs"
  shows "num_moved evs = transfer_moves tr v \<and> num_copied evs = transfer_copies tr v"
proof -
  from assms obtain r evs1 d evs2
    where t: "transfer_n tr (data_v v) 0 (size_v v) (allocated tr n) 0 = Ok r evs1"
      and d: "destroy_n (fst r) 0 (size_v v) = Inr (d, evs2)"
      and e: "evs = Allocate n # evs1 @ evs2 @ [Deallocate (Capacity v)]"
    by (auto simp: Reserve_def split: if_splits outcome.splits sum.splits)
  from transfer_n_counts [OF t] destroy_n_counts [OF d] show ?thesis
    by (simp add: e transfer_moves_def transfer_copies_def)
qed


lemma append_new_counts:
  "append_new tr (mk xs 0) a = Ok v' evs \<Longrightarrow>
     num_moved evs = transfer_moves tr (mk xs 0) + init_moves tr a \<and>
     num_copied evs = transfer_copies tr (mk xs 0) + init_copies tr a"
  by (auto simp: append_new_full_mk num_transfer [of tr _ xs 0] init_01 split: if_splits)

lemma Emplace_grow_at:
  assumes "pos < length xs"
  shows "Emplace tr (mk xs 0) pos a =
     (let n = grown_capacity (length xs); x = init_value a;
          p = transferable tr (take pos xs); s = transferable tr (drop pos xs)
      in
      if alloc_fails tr n then Threw bad_alloc (mk xs 0) []
      else if init_throws tr a then Threw elem_exn (mk xs 0) [Allocate n, Deallocate n]
      else if p \<noteq> take pos xs
      then Threw elem_exn (mk (map (left_behind tr) p @ drop (length p) xs) 0)
             (Allocate n # init_event tr (Slot pos) a
                # ev_seq (transfer_ctor tr) 0 p @ ev_seq Dtor 0 p
                @ [Dtor (Slot pos) x, Deallocate n])
      else if s \<noteq> drop pos xs
      then Threw elem_exn (mk (map (left_behind tr) (take pos xs @ s) @ drop (length s + pos) xs) 0)
             (Allocate n # init_event tr (Slot pos) a
                # ev_seq (transfer_ctor tr) 0 (take pos xs)
                @ (ev_seq (transfer_ctor tr) (Suc pos) s @ ev_seq Dtor (Suc pos) s)
                @ ev_seq Dtor 0 (take pos xs) @ [Dtor (Slot pos) x, Deallocate n])
      else Ok (mk (take pos xs @ x # drop pos xs) (n - Suc (length xs)), pos)
             (Allocate n # init_event tr (Slot pos) a
                # ev_seq (transfer_ctor tr) 0 (take pos xs)
                @ ev_seq (transfer_ctor tr) (Suc pos) (drop pos xs)
                @ ev_seq Dtor 0 (map (left_behind tr) xs)
                @ [Deallocate (length xs)]))"
proof -
  let ?pre = "take pos xs" and ?suf = "drop pos xs"
  have ne: "?suf \<noteq> []" using assms by simp
  have lp: "length ?pre = pos" using assms by simp
  have ls: "pos + length ?suf = length xs" using assms by simp
  have d1: "drop (length (transferable tr ?pre)) ?pre @ ?suf = drop (length (transferable tr ?pre)) xs"
  proof -
    have "length (transferable tr ?pre) \<le> pos"
      using takeWhile_length_le [of _ ?pre] lp by (simp add: transferable_def)
    then show ?thesis
      by (metis append_take_drop_id drop_append lp diff_is_0_eq drop_0)
  qed
  show ?thesis
    using Emplace_grow_mk [OF ne, of tr ?pre a]
    unfolding lp ls by (simp add: d1 Let_def)
qed



lemma Emplace_full_counts:
  assumes "Emplace tr (mk xs 0) pos a = Ok (v', r) evs"
  shows "num_moved evs = transfer_moves tr (mk xs 0) + init_moves tr a \<and>
     num_copied evs = transfer_copies tr (mk xs 0) + init_copies tr a"
proof -
  consider "length xs < pos" | "pos = length xs" | "pos < length xs" by linarith
  then show ?thesis
  proof cases
    case 1
    with assms show ?thesis by (simp add: Emplace_def)
  next
    case 2
    with assms obtain w where "append_new tr (mk xs 0) a = Ok w evs"
      by (auto simp: Emplace_end_mk split: outcome.splits)
    then show ?thesis by (rule append_new_counts)
  next
    case 3
    have t: "num_moved (ev_seq (transfer_ctor tr) 0 (take pos xs))
              + num_moved (ev_seq (transfer_ctor tr) (Suc pos) (drop pos xs))
             = transfer_moves tr (mk xs 0)"
      "num_copied (ev_seq (transfer_ctor tr) 0 (take pos xs))
              + num_copied (ev_seq (transfer_ctor tr) (Suc pos) (drop pos xs))
             = transfer_copies tr (mk xs 0)"
      using 3 by (simp_all add: transfer_ctor_def rvalue_ctor_def moves_on_growth_iff
          transfer_moves_def transfer_copies_def)
    from assms show ?thesis
      using t by (auto simp: Emplace_grow_at [OF 3] Let_def init_01 split: if_splits)
  qed
qed

lemma Reserve_returns:
  assumes "length xs + k < n" and "fits tr n" and "\<not> alloc_fails tr n"
    and "\<forall>y\<in>set xs. \<not> transfer_throws tr y"
  shows "\<exists>v' evs. Reserve tr (mk xs k) n = Ok v' evs"
  using assms by (simp add: Reserve_mk transferable_all)

lemma append_new_returns:
  assumes "\<not> alloc_fails tr (grown_capacity (length xs))" and "\<not> init_throws tr a"
    and "\<forall>y\<in>set xs. \<not> transfer_throws tr y"
  shows "\<exists>v' evs. append_new tr (mk xs 0) a = Ok v' evs"
  using assms by (simp add: append_new_full_mk transferable_all)

lemma Emplace_full_returns:
  assumes "pos \<le> length xs"
    and "\<not> alloc_fails tr (grown_capacity (length xs))" and "\<not> init_throws tr a"
    and "\<forall>y\<in>set xs. \<not> transfer_throws tr y"
  shows "\<exists>v' evs. Emplace tr (mk xs 0) pos a = Ok (v', pos) evs"
proof (cases "pos = length xs")
  case True
  with assms(2-4) show ?thesis
    by (simp add: Emplace_end_mk append_new_full_mk transferable_all)
next
  case False
  with assms(1) have lt: "pos < length xs" by simp
  have tt: "\<forall>x\<in>set ys. \<not> transfer_throws tr x" if "set ys \<subseteq> set xs" for ys
    using assms(4) that by auto
  have all: "transferable tr (take pos xs) = take pos xs"
    "transferable tr (drop pos xs) = drop pos xs"
    using tt [OF set_take_subset, of pos] tt [OF set_drop_subset, of pos]
    by (simp_all add: transferable_all)
  from assms(2,3) all show ?thesis
    by (simp add: Emplace_grow_at [OF lt] Let_def)
qed

text \<open>
  Claim C2. On a well-formed vector, \<^verbatim>\<open>Reserve\<close> past the capacity (with a byte
  size that does not wrap), and both overloads of \<^verbatim>\<open>PushBack\<close>, \<^verbatim>\<open>EmplaceBack\<close>
  and \<^verbatim>\<open>Emplace\<close> at full capacity, return normally when the allocation succeeds
  and neither the new element nor a transferred one throws, and the counters of the
  trace are then the predicted ones: the existing elements were all move-constructed
  into the new buffer when \<open>T\<close> has a non-throwing move constructor or no copy
  constructor, and all copy-constructed otherwise; the only other construction is that
  of the new element. The same counters hold for every normal return of these
  operations, whatever throws or wraps.
\<close>

theorem growth_transfers_by_move_or_copy:
  assumes "invar v"
  shows "(Capacity v < n \<and> fits tr n \<and> \<not> alloc_fails tr n \<and>
       (\<forall>y\<in>set (elems v). \<not> transfer_throws tr y) \<longrightarrow>
       (\<exists>v' evs. Reserve tr v n = Ok v' evs \<and>
          num_moved evs = transfer_moves tr v \<and> num_copied evs = transfer_copies tr v)) \<and>
    (Size v = Capacity v \<and> \<not> alloc_fails tr (grown_capacity (Capacity v)) \<and>
       (\<forall>y\<in>set (elems v). \<not> transfer_throws tr y) \<longrightarrow>
       (\<not> copy_throws tr x \<longrightarrow>
          (\<exists>v' evs. PushBack_copy tr v x = Ok v' evs \<and>
             num_moved evs = transfer_moves tr v \<and> num_copied evs = transfer_copies tr v + 1)) \<and>
       (\<not> rvalue_throws tr x \<longrightarrow>
          (\<exists>v' evs. PushBack_move tr v x = Ok v' evs \<and>
             num_moved evs = transfer_moves tr v + (if rvalue_copies tr then 0 else 1) \<and>
             num_copied evs = transfer_copies tr v + (if rvalue_copies tr then 1 else 0))) \<and>
       (\<not> init_throws tr a \<longrightarrow>
          (\<exists>v' r evs. EmplaceBack tr v a = Ok (v', r) evs \<and>
             num_moved evs = transfer_moves tr v + init_moves tr a \<and>
             num_copied evs = transfer_copies tr v + init_copies tr a)) \<and>
       (\<not> init_throws tr a \<and> pos \<le> Size v \<longrightarrow>
          (\<exists>v' r evs. Emplace tr v pos a = Ok (v', r) evs \<and>
             num_moved evs = transfer_moves tr v + init_moves tr a \<and>
             num_copied evs = transfer_copies tr v + init_copies tr a))) \<and>
    (\<forall>v' evs. Capacity v < n \<and> Reserve tr v n = Ok v' evs \<longrightarrow>
       num_moved evs = transfer_moves tr v \<and> num_copied evs = transfer_copies tr v) \<and>
    (\<forall>v' evs. Size v = Capacity v \<and> PushBack_copy tr v x = Ok v' evs \<longrightarrow>
       num_moved evs = transfer_moves tr v \<and> num_copied evs = transfer_copies tr v + 1) \<and>
    (\<forall>v' evs. Size v = Capacity v \<and> PushBack_move tr v x = Ok v' evs \<longrightarrow>
       num_moved evs = transfer_moves tr v + (if rvalue_copies tr then 0 else 1) \<and>
       num_copied evs = transfer_copies tr v + (if rvalue_copies tr then 1 else 0)) \<and>
    (\<forall>v' r evs. Size v = Capacity v \<and> EmplaceBack tr v a = Ok (v', r) evs \<longrightarrow>
       num_moved evs = transfer_moves tr v + init_moves tr a \<and>
       num_copied evs = transfer_copies tr v + init_copies tr a) \<and>
    (\<forall>v' r evs. Size v = Capacity v \<and> Emplace tr v pos a = Ok (v', r) evs \<longrightarrow>
       num_moved evs = transfer_moves tr v + init_moves tr a \<and>
       num_copied evs = transfer_copies tr v + init_copies tr a)"
proof -
  obtain xs k where v: "v = mk xs k"
    using invar_is_mk [OF assms] by blast
  have k: "Size v = Capacity v \<Longrightarrow> v = mk xs 0"
    by (simp add: v Size_def)
  have o1: "\<forall>v' evs. Capacity v < n \<and> Reserve tr v n = Ok v' evs \<longrightarrow>
       num_moved evs = transfer_moves tr v \<and> num_copied evs = transfer_copies tr v"
    using Reserve_counts by blast
  have ap: "num_moved evs = transfer_moves tr v + init_moves tr b \<and>
       num_copied evs = transfer_copies tr v + init_copies tr b"
    if "Size v = Capacity v" and "append_new tr v b = Ok v' evs" for b v' evs
    using append_new_counts [of tr xs b v' evs] k [OF that(1)] that(2) by simp
  have o2: "\<forall>v' evs. Size v = Capacity v \<and> PushBack_copy tr v x = Ok v' evs \<longrightarrow>
       num_moved evs = transfer_moves tr v \<and> num_copied evs = transfer_copies tr v + 1"
    using ap [of "FromCopy x"] by (auto simp: PushBack_copy_def)
  have o3: "\<forall>v' evs. Size v = Capacity v \<and> PushBack_move tr v x = Ok v' evs \<longrightarrow>
       num_moved evs = transfer_moves tr v + (if rvalue_copies tr then 0 else 1) \<and>
       num_copied evs = transfer_copies tr v + (if rvalue_copies tr then 1 else 0)"
    using ap [of "FromMove x"] by (auto simp: PushBack_move_def)
  have o4: "\<forall>v' r evs. Size v = Capacity v \<and> EmplaceBack tr v a = Ok (v', r) evs \<longrightarrow>
       num_moved evs = transfer_moves tr v + init_moves tr a \<and>
       num_copied evs = transfer_copies tr v + init_copies tr a"
  proof (intro allI impI, elim conjE)
    fix v' r evs
    assume f: "Size v = Capacity v" and e: "EmplaceBack tr v a = Ok (v', r) evs"
    from e obtain w where "append_new tr v a = Ok w evs"
      by (auto simp: EmplaceBack_def split: outcome.splits)
    then show "num_moved evs = transfer_moves tr v + init_moves tr a \<and>
       num_copied evs = transfer_copies tr v + init_copies tr a"
      using ap [OF f] by simp
  qed
  have o5: "\<forall>v' r evs. Size v = Capacity v \<and> Emplace tr v pos a = Ok (v', r) evs \<longrightarrow>
       num_moved evs = transfer_moves tr v + init_moves tr a \<and>
       num_copied evs = transfer_copies tr v + init_copies tr a"
    using Emplace_full_counts [of tr xs pos a] k by auto
  have e1: "Capacity v < n \<and> fits tr n \<and> \<not> alloc_fails tr n \<and>
       (\<forall>y\<in>set (elems v). \<not> transfer_throws tr y) \<longrightarrow>
       (\<exists>v' evs. Reserve tr v n = Ok v' evs \<and>
          num_moved evs = transfer_moves tr v \<and> num_copied evs = transfer_copies tr v)"
  proof (intro impI, elim conjE)
    assume c: "Capacity v < n" and "fits tr n" and "\<not> alloc_fails tr n"
      and "\<forall>y\<in>set (elems v). \<not> transfer_throws tr y"
    then obtain v' evs where "Reserve tr v n = Ok v' evs"
      using Reserve_returns [of xs k n tr] by (auto simp: v)
    with o1 c show "\<exists>v' evs. Reserve tr v n = Ok v' evs \<and>
          num_moved evs = transfer_moves tr v \<and> num_copied evs = transfer_copies tr v"
      by blast
  qed
  have e2: "(\<not> copy_throws tr x \<longrightarrow>
          (\<exists>v' evs. PushBack_copy tr v x = Ok v' evs \<and>
             num_moved evs = transfer_moves tr v \<and> num_copied evs = transfer_copies tr v + 1)) \<and>
       (\<not> rvalue_throws tr x \<longrightarrow>
          (\<exists>v' evs. PushBack_move tr v x = Ok v' evs \<and>
             num_moved evs = transfer_moves tr v + (if rvalue_copies tr then 0 else 1) \<and>
             num_copied evs = transfer_copies tr v + (if rvalue_copies tr then 1 else 0))) \<and>
       (\<not> init_throws tr a \<longrightarrow>
          (\<exists>v' r evs. EmplaceBack tr v a = Ok (v', r) evs \<and>
             num_moved evs = transfer_moves tr v + init_moves tr a \<and>
             num_copied evs = transfer_copies tr v + init_copies tr a)) \<and>
       (\<not> init_throws tr a \<and> pos \<le> Size v \<longrightarrow>
          (\<exists>v' r evs. Emplace tr v pos a = Ok (v', r) evs \<and>
             num_moved evs = transfer_moves tr v + init_moves tr a \<and>
             num_copied evs = transfer_copies tr v + init_copies tr a))"
    if f: "Size v = Capacity v" and al: "\<not> alloc_fails tr (grown_capacity (Capacity v))"
      and nt: "\<forall>y\<in>set (elems v). \<not> transfer_throws tr y"
  proof -
    have v0: "v = mk xs 0" by (rule k [OF f])
    from al have al': "\<not> alloc_fails tr (grown_capacity (length xs))" by (simp add: v0)
    from nt have nt': "\<forall>y\<in>set xs. \<not> transfer_throws tr y" by (simp add: v0)
    have ret: "\<exists>v' evs. append_new tr v b = Ok v' evs" if "\<not> init_throws tr b" for b
      unfolding v0 by (rule append_new_returns [OF al' that nt'])
    have a: "\<exists>v' evs. PushBack_copy tr v x = Ok v' evs \<and>
             num_moved evs = transfer_moves tr v \<and> num_copied evs = transfer_copies tr v + 1"
      if "\<not> copy_throws tr x"
    proof -
      from that ret [of "FromCopy x"] obtain v' evs where "PushBack_copy tr v x = Ok v' evs"
        by (auto simp: PushBack_copy_def)
      with o2 f show ?thesis by blast
    qed
    have b: "\<exists>v' evs. PushBack_move tr v x = Ok v' evs \<and>
             num_moved evs = transfer_moves tr v + (if rvalue_copies tr then 0 else 1) \<and>
             num_copied evs = transfer_copies tr v + (if rvalue_copies tr then 1 else 0)"
      if "\<not> rvalue_throws tr x"
    proof -
      from that ret [of "FromMove x"] obtain v' evs where "PushBack_move tr v x = Ok v' evs"
        by (auto simp: PushBack_move_def)
      with o3 f show ?thesis by blast
    qed
    have c: "\<exists>v' r evs. EmplaceBack tr v a = Ok (v', r) evs \<and>
             num_moved evs = transfer_moves tr v + init_moves tr a \<and>
             num_copied evs = transfer_copies tr v + init_copies tr a"
      if "\<not> init_throws tr a"
    proof -
      from ret [OF that] obtain v' r evs where "EmplaceBack tr v a = Ok (v', r) evs"
        by (auto simp: EmplaceBack_def)
      with o4 f show ?thesis by blast
    qed
    have d: "\<exists>v' r evs. Emplace tr v pos a = Ok (v', r) evs \<and>
             num_moved evs = transfer_moves tr v + init_moves tr a \<and>
             num_copied evs = transfer_copies tr v + init_copies tr a"
      if "\<not> init_throws tr a" and "pos \<le> Size v"
    proof -
      from that(2) have "pos \<le> length xs" by (simp add: v0 Size_def)
      from Emplace_full_returns [OF this al' that(1) nt']
      obtain v' evs where "Emplace tr v pos a = Ok (v', pos) evs"
        unfolding v0 by blast
      with o5 f show ?thesis by blast
    qed
    from a b c d show ?thesis by blast
  qed
  from e1 e2 o1 o2 o3 o4 o5 show ?thesis by blast
qed


theorem growth_transfers_by_move_or_copy_witness:
  "invar \<lparr>data_v = [Live (5::nat), Live 6], capacity_v = 2, size_v = 2\<rparr> \<and>
   (\<exists>v' evs. Reserve T_move_only \<lparr>data_v = [Live 5, Live 6], capacity_v = 2, size_v = 2\<rparr> 5
        = Ok v' evs \<and> num_moved evs = 2 \<and> num_copied evs = 0) \<and>
   (\<exists>v' evs. Reserve T_copying \<lparr>data_v = [Live 5, Live 6], capacity_v = 2, size_v = 2\<rparr> 5
        = Ok v' evs \<and> num_moved evs = 0 \<and> num_copied evs = 2) \<and>
   (\<exists>v' evs. PushBack_copy T_nothrow \<lparr>data_v = [Live 5, Live 6], capacity_v = 2, size_v = 2\<rparr> 7
        = Ok v' evs \<and> num_moved evs = 2 \<and> num_copied evs = 1) \<and>
   (\<exists>v' evs. PushBack_move T_copying \<lparr>data_v = [Live 5, Live 6], capacity_v = 2, size_v = 2\<rparr> 7
        = Ok v' evs \<and> num_moved evs = 1 \<and> num_copied evs = 2) \<and>
   (\<exists>v' evs. PushBack_move T_copy_only \<lparr>data_v = [Live 5, Live 6], capacity_v = 2, size_v = 2\<rparr> 7
        = Ok v' evs \<and> num_moved evs = 0 \<and> num_copied evs = 3) \<and>
   (\<exists>v' r evs. EmplaceBack T_copy_only \<lparr>data_v = [Live 5, Live 6], capacity_v = 2, size_v = 2\<rparr>
        (FromArgs 7) = Ok (v', r) evs \<and> num_moved evs = 0 \<and> num_copied evs = 2) \<and>
   (\<exists>v' r evs. EmplaceBack T_nothrow \<lparr>data_v = [Live 5, Live 6], capacity_v = 2, size_v = 2\<rparr>
        (FromArgs 7) = Ok (v', r) evs \<and> num_moved evs = 2 \<and> num_copied evs = 0) \<and>
   (\<exists>v' r evs. Emplace T_copying \<lparr>data_v = [Live 5, Live 6], capacity_v = 2, size_v = 2\<rparr> 1
        (FromArgs 7) = Ok (v', r) evs \<and> num_moved evs = 0 \<and> num_copied evs = 2) \<and>
   Emplace T_move_only \<lparr>data_v = [Live 5, Live 6], capacity_v = 2, size_v = 2\<rparr> 1 (FromArgs 7) =
     Ok (\<lparr>data_v = [Live 5, Live 7, Live 6, Raw], capacity_v = 4, size_v = 3\<rparr>, 1)
       [Allocate 4, Ctor (Slot 1) 7, MoveCtor (Slot 0) 5, MoveCtor (Slot 2) 6, Dtor (Slot 0) 0,
        Dtor (Slot 1) 0, Deallocate 2] \<and>
   num_moved [Allocate 4, Ctor (Slot 1) 7, MoveCtor (Slot 0) 5, MoveCtor (Slot 2) 6, Dtor (Slot 0) 0,
        Dtor (Slot 1) (0::nat), Deallocate 2] = 2 \<and>
   num_copied [Allocate 4, Ctor (Slot 1) 7, MoveCtor (Slot 0) 5, MoveCtor (Slot 2) 6, Dtor (Slot 0) 0,
        Dtor (Slot 1) (0::nat), Deallocate 2] = 0"
proof -
  let ?v = "\<lparr>data_v = [Live (5::nat), Live 6], capacity_v = 2, size_v = 2\<rparr>"
  let ?e = "[Allocate 4, Ctor (Slot 1) 7, MoveCtor (Slot 0) 5, MoveCtor (Slot 2) 6, Dtor (Slot 0) 0,
        Dtor (Slot 1) (0::nat), Deallocate 2]"
  have v: "invar ?v" "Size ?v = 2" "Capacity ?v = 2" "elems ?v = [5, 6]" "Size ?v = Capacity ?v"
    by (simp_all add: invar_def Size_def Capacity_def elems_def map_filter_simps)
  have g: "grown_capacity 2 = 4" by (simp add: grown_capacity_def)
  have tm: "transfer_moves T_nothrow ?v = 2" "transfer_copies T_nothrow ?v = 0"
    "transfer_moves T_copying ?v = 0" "transfer_copies T_copying ?v = 2"
    "transfer_moves T_move_only ?v = 2" "transfer_copies T_move_only ?v = 0"
    "transfer_moves T_copy_only ?v = 0" "transfer_copies T_copy_only ?v = 2"
    by (simp_all add: transfer_moves_def transfer_copies_def T_nothrow_simps T_copying_simps
        T_move_only_simps T_copy_only_simps)
  have f: "fits T_move_only 5" "fits T_copying 5"
    by (simp_all add: fits_def T_move_only_simps T_copying_simps)
  have 1: "\<exists>v' evs. Reserve T_move_only ?v 5 = Ok v' evs \<and> num_moved evs = 2 \<and> num_copied evs = 0"
    using growth_transfers_by_move_or_copy [OF v(1), where n = 5 and tr = T_move_only] f
    by (simp add: v tm T_move_only_simps)
  have 2: "\<exists>v' evs. Reserve T_copying ?v 5 = Ok v' evs \<and> num_moved evs = 0 \<and> num_copied evs = 2"
    using growth_transfers_by_move_or_copy [OF v(1), where n = 5 and tr = T_copying] f
    by (simp add: v tm T_copying_simps)
  have 3: "\<exists>v' evs. PushBack_copy T_nothrow ?v 7 = Ok v' evs \<and> num_moved evs = 2 \<and> num_copied evs = 1"
    using growth_transfers_by_move_or_copy [OF v(1), where tr = T_nothrow and x = 7]
    by (simp add: v tm g T_nothrow_simps)
  have 4: "\<exists>v' evs. PushBack_move T_copying ?v 7 = Ok v' evs \<and> num_moved evs = 1 \<and> num_copied evs = 2"
    using growth_transfers_by_move_or_copy [OF v(1), where tr = T_copying and x = 7]
    by (simp add: v tm g T_copying_simps)
  have 5: "\<exists>v' evs. PushBack_move T_copy_only ?v 7 = Ok v' evs \<and> num_moved evs = 0 \<and> num_copied evs = 3"
    using growth_transfers_by_move_or_copy [OF v(1), where tr = T_copy_only and x = 7]
    by (simp add: v tm g T_copy_only_simps)
  have 6: "\<exists>v' r evs. EmplaceBack T_copy_only ?v (FromArgs 7) = Ok (v', r) evs \<and>
      num_moved evs = 0 \<and> num_copied evs = 2"
    using growth_transfers_by_move_or_copy [OF v(1), where tr = T_copy_only and a = "FromArgs 7"]
    by (simp add: v tm g T_copy_only_simps)
  have 7: "\<exists>v' r evs. EmplaceBack T_nothrow ?v (FromArgs 7) = Ok (v', r) evs \<and>
      num_moved evs = 2 \<and> num_copied evs = 0"
    using growth_transfers_by_move_or_copy [OF v(1), where tr = T_nothrow and a = "FromArgs 7"]
    by (simp add: v tm g T_nothrow_simps)
  have 8: "\<exists>v' r evs. Emplace T_copying ?v 1 (FromArgs 7) = Ok (v', r) evs \<and>
      num_moved evs = 0 \<and> num_copied evs = 2"
    using growth_transfers_by_move_or_copy [OF v(1), where tr = T_copying and a = "FromArgs 7"
        and pos = 1]
    by (simp add: v tm g T_copying_simps)
  have e: "Emplace T_move_only ?v 1 (FromArgs 7) =
     Ok (\<lparr>data_v = [Live 5, Live 7, Live 6, Raw], capacity_v = 4, size_v = 3\<rparr>, 1) ?e"
    by code_simp
  from growth_transfers_by_move_or_copy [OF v(1), where tr = T_move_only and a = "FromArgs 7"
      and pos = 1] e
  have 9: "num_moved ?e = 2 \<and> num_copied ?e = 0"
    by (simp add: v tm)
  from v(1) 1 2 3 4 5 6 7 8 e 9 show ?thesis by blast
qed

section \<open>Emplace followed by Erase\<close>


lemma Emplace_spare_at:
  assumes "pos < length xs" and "\<not> init_throws tr a" and "\<not> rvalue_throws tr (last xs)"
    and "\<forall>x\<in>set xs. \<not> move_assign_throws tr x"
    and "\<not> move_assign_throws tr (init_value a)"
  shows "\<exists>evs. Emplace tr (mk xs (Suc k)) pos a =
     Ok (mk (take pos xs @ init_value a # drop pos xs) k, pos) evs"
proof -
  let ?pre = "take pos xs" and ?mid = "butlast (drop pos xs)"
  have ne: "drop pos xs \<noteq> []" using assms(1) by simp
  then have d: "drop pos xs = ?mid @ [last xs]"
    using assms(1) by (metis append_butlast_last_id last_drop)
  have xs: "xs = ?pre @ ?mid @ [last xs]"
    using d by (metis append_take_drop_id)
  have lp: "length ?pre = pos" using assms(1) by simp
  have nt: "\<forall>x\<in>set ?mid. \<not> move_assign_throws tr x"
    using assms(4) by (meson in_set_butlastD in_set_dropD)
  have "Emplace tr (mk (?pre @ ?mid @ [last xs]) (Suc k)) (length ?pre) a =
     Ok (mk (?pre @ init_value a # ?mid @ [last xs]) k, length ?pre)
        (init_event tr Temporary a # rvalue_ctor tr (Slot (Suc (length ?pre + length ?mid))) (last xs)
           # rev (ev_seq MoveAssign (Suc (length ?pre)) ?mid)
           @ [MoveAssign (Slot (length ?pre)) (init_value a),
              Dtor Temporary (moved_from tr (init_value a))])"
    by (rule Emplace_spare_mk [OF assms(2,3) nt assms(5)])
  then show ?thesis
    unfolding lp d [symmetric] by auto
qed

lemma Emplace_inserts:
  assumes "pos \<le> length xs"
    and "k = 0 \<longrightarrow> \<not> alloc_fails tr (grown_capacity (length xs))"
    and "\<not> init_throws tr a" and "\<not> move_assign_throws tr (init_value a)"
    and "\<forall>x\<in>set xs. \<not> copy_throws tr x \<and> \<not> move_throws tr x \<and> \<not> move_assign_throws tr x"
  shows "\<exists>evs k'. Emplace tr (mk xs k) pos a =
     Ok (mk (take pos xs @ init_value a # drop pos xs) k', pos) evs"
proof -
  have tt: "\<forall>x\<in>set ys. \<not> transfer_throws tr x" if "set ys \<subseteq> set xs" for ys
    using assms(5) that by (auto simp: transfer_throws_def rvalue_throws_def)
  have all: "transferable tr xs = xs" "transferable tr (take pos xs) = take pos xs"
    "transferable tr (drop pos xs) = drop pos xs"
    using tt [of xs] tt [OF set_take_subset, of pos] tt [OF set_drop_subset, of pos]
    by (simp_all add: transferable_all)
  show ?thesis
  proof (cases "pos = length xs")
    case True
    show ?thesis
    proof (cases k)
      case 0
      with assms(2,3) all(1) True show ?thesis
        by (auto simp: Emplace_end_mk append_new_full_mk)
    next
      case (Suc j)
      with assms(3) True show ?thesis
        by (auto simp: Emplace_end_mk append_new_spare_mk)
    qed
  next
    case False
    with assms(1) have lt: "pos < length xs" by simp
    show ?thesis
    proof (cases k)
      case 0
      with assms(2,3) all show ?thesis
        by (auto simp: Emplace_grow_at [OF lt] Let_def)
    next
      case (Suc j)
      have "xs \<noteq> []" using lt by auto
      then have "\<not> rvalue_throws tr (last xs)" and "\<forall>x\<in>set xs. \<not> move_assign_throws tr x"
        using assms(5) by (simp_all add: rvalue_throws_def)
      then show ?thesis
        using Emplace_spare_at [OF lt assms(3) _ _ assms(4), of j] Suc by blast
    qed
  qed
qed

text \<open>
  Claim C9. On a well-formed vector and a position \<open>pos \<le> Size()\<close>, when nothing
  throws, \<^verbatim>\<open>Emplace(pos, ...)\<close> returns \<open>pos\<close> with the new element inserted there,
  and \<^verbatim>\<open>Erase\<close> at the returned position then gives back the old contents and
  size.
\<close>

theorem Emplace_then_Erase_restores:
  assumes "invar v" and "pos \<le> Size v"
    and "Size v = Capacity v \<longrightarrow> \<not> alloc_fails tr (grown_capacity (Capacity v))"
    and "\<not> init_throws tr a" and "\<not> move_assign_throws tr (init_value a)"
    and "\<forall>x\<in>set (elems v). \<not> copy_throws tr x \<and> \<not> move_throws tr x \<and> \<not> move_assign_throws tr x"
  shows "\<exists>v' evs v'' evs'.
      Emplace tr v pos a = Ok (v', pos) evs \<and>
      elems v' = take pos (elems v) @ init_value a # drop pos (elems v) \<and>
      Erase tr v' pos = Ok (v'', pos) evs' \<and>
      invar v'' \<and> elems v'' = elems v \<and> Size v'' = Size v"
proof -
  obtain xs k where v: "v = mk xs k"
    using invar_is_mk [OF assms(1)] by blast
  from assms(2) have p: "pos \<le> length xs" by (simp add: v Size_def)
  from assms(3) have al: "k = 0 \<longrightarrow> \<not> alloc_fails tr (grown_capacity (length xs))"
    by (auto simp: v Size_def)
  from assms(6) have nt: "\<forall>x\<in>set xs. \<not> copy_throws tr x \<and> \<not> move_throws tr x \<and> \<not> move_assign_throws tr x"
    by (simp add: v)
  let ?ys = "take pos xs @ init_value a # drop pos xs"
  obtain evs k' where e: "Emplace tr (mk xs k) pos a = Ok (mk ?ys k', pos) evs"
    using Emplace_inserts [OF p al assms(4,5) nt] by blast
  have lp: "pos < length ?ys" using p by simp
  have dr: "drop (Suc pos) ?ys = drop pos xs" and tk: "take pos ?ys = take pos xs"
    using p by simp_all
  have nt': "\<forall>x\<in>set (drop (Suc pos) ?ys). \<not> move_assign_throws tr x"
    unfolding dr using nt by (meson in_set_dropD)
  have r: "Erase tr (mk ?ys k') pos =
     Ok (mk xs (Suc k'), pos)
        (ev_seq MoveAssign pos (drop (Suc pos) ?ys)
           @ [Dtor (Slot (length ?ys - 1))
                (if pos = length ?ys - 1 then ?ys ! pos else moved_from tr (last ?ys))])"
    using Erase_at [OF lp nt', of k'] unfolding dr tk by simp
  show ?thesis
    unfolding v using e r by (auto simp: Size_def)
qed

theorem Emplace_then_Erase_restores_witness:
  "invar \<lparr>data_v = [Live (5::nat), Live 6, Raw], capacity_v = 3, size_v = 2\<rparr> \<and>
   (\<exists>v' evs v'' evs'.
      Emplace T_nothrow \<lparr>data_v = [Live 5, Live 6, Raw], capacity_v = 3, size_v = 2\<rparr> 1 (FromArgs 7)
        = Ok (v', 1) evs \<and>
      elems v' = [5, 7, 6] \<and>
      Erase T_nothrow v' 1 = Ok (v'', 1) evs' \<and> invar v'' \<and> elems v'' = [5, 6] \<and> Size v'' = 2) \<and>
   invar \<lparr>data_v = [Live (5::nat), Live 6], capacity_v = 2, size_v = 2\<rparr> \<and>
   (\<exists>v' evs v'' evs'.
      Emplace T_copying \<lparr>data_v = [Live 5, Live 6], capacity_v = 2, size_v = 2\<rparr> 0 (FromCopy 7)
        = Ok (v', 0) evs \<and>
      elems v' = [7, 5, 6] \<and>
      Erase T_copying v' 0 = Ok (v'', 0) evs' \<and> invar v'' \<and> elems v'' = [5, 6] \<and> Size v'' = 2)"
proof -
  let ?v = "\<lparr>data_v = [Live (5::nat), Live 6, Raw], capacity_v = 3, size_v = 2\<rparr>"
  let ?w = "\<lparr>data_v = [Live (5::nat), Live 6], capacity_v = 2, size_v = 2\<rparr>"
  have v: "invar ?v" "elems ?v = [5, 6]" "Size ?v = 2" "Capacity ?v = 3"
    by (simp_all add: invar_def elems_def map_filter_simps Size_def Capacity_def)
  have w: "invar ?w" "elems ?w = [5, 6]" "Size ?w = 2" "Capacity ?w = 2"
    by (simp_all add: invar_def elems_def map_filter_simps Size_def Capacity_def)
  have 1: "\<exists>v' evs v'' evs'.
      Emplace T_nothrow ?v 1 (FromArgs 7) = Ok (v', 1) evs \<and> elems v' = [5, 7, 6] \<and>
      Erase T_nothrow v' 1 = Ok (v'', 1) evs' \<and> invar v'' \<and> elems v'' = [5, 6] \<and> Size v'' = 2"
    using Emplace_then_Erase_restores [OF v(1), of 1 T_nothrow "FromArgs 7"]
    by (simp add: v T_nothrow_simps)
  have 2: "\<exists>v' evs v'' evs'.
      Emplace T_copying ?w 0 (FromCopy 7) = Ok (v', 0) evs \<and> elems v' = [7, 5, 6] \<and>
      Erase T_copying v' 0 = Ok (v'', 0) evs' \<and> invar v'' \<and> elems v'' = [5, 6] \<and> Size v'' = 2"
    using Emplace_then_Erase_restores [OF w(1), of 0 T_copying "FromCopy 7"]
    by (simp add: w T_copying_simps)
  from v(1) w(1) 1 2 show ?thesis by blast
qed

section \<open>Failures of a growing Emplace\<close>


lemma not_transferable: "(\<exists>x\<in>set xs. transfer_throws tr x) \<longleftrightarrow> transferable tr xs \<noteq> xs"
  using transferable_all [of xs tr] by blast

lemma length_transferable: "length (transferable tr xs) \<le> length xs"
  by (simp add: transferable_def takeWhile_length_le)

text \<open>
  Claim C3 says that after every failure of a growing \<^verbatim>\<open>Emplace\<close> the elements of
  the vector are the ones before the call. For an element type without copy
  constructor whose move constructor throws, the transfer moves, and a failure leaves
  the elements moved so far in their moved-from state: inserting before the second of
  \<open>[5, 6, 13]\<close> moves \<open>5\<close> and \<open>6\<close>, fails on \<open>13\<close>, and leaves \<open>[0, 0, 13]\<close>.
\<close>

theorem Emplace_growth_failure_not_rolled_back:
  "invar \<lparr>data_v = [Live (5::nat), Live 6, Live 13], capacity_v = 3, size_v = 3\<rparr> \<and>
   Emplace T_move_only \<lparr>data_v = [Live 5, Live 6, Live 13], capacity_v = 3, size_v = 3\<rparr> 1 (FromArgs 7) =
     Threw elem_exn \<lparr>data_v = [Live 0, Live 0, Live 13], capacity_v = 3, size_v = 3\<rparr>
       [Allocate 6, Ctor (Slot 1) 7, MoveCtor (Slot 0) 5, MoveCtor (Slot 2) 6, Dtor (Slot 2) 6,
        Dtor (Slot 0) 5, Dtor (Slot 1) 7, Deallocate 6] \<and>
   elems \<lparr>data_v = [Live 0, Live 0, Live 13], capacity_v = 3, size_v = 3\<rparr>
     \<noteq> elems \<lparr>data_v = [Live (5::nat), Live 6, Live 13], capacity_v = 3, size_v = 3\<rparr>"
  by code_simp

text \<open>
  Claim C3, amended. On a well-formed vector at full capacity and a position
  \<open>pos < Size()\<close>, with the allocation succeeding: if the construction of the new
  element throws, the vector is unchanged and nothing else has happened; if the transfer
  of the prefix throws, the prefix elements transferred so far are destroyed by the
  algorithm and then the new element by the handler; if the transfer of the suffix
  throws, the suffix elements transferred so far, then the whole prefix, then the new
  element are destroyed. In each case the size and the capacity are the ones before the
  call, and the old elements transferred before the failure hold what the transfer
  leaves behind: their own value after a copy, the moved-from value after a move. So the
  vector is exactly as before the call when the transfer copies, and when the move
  constructor never throws.
\<close>

theorem Emplace_growth_failure_staged:
  assumes "invar v" and "Size v = Capacity v" and "pos < Size v"
    and "\<not> alloc_fails tr (grown_capacity (Capacity v))"
  shows "(init_throws tr a \<longrightarrow>
       Emplace tr v pos a =
         Threw elem_exn v
           [Allocate (grown_capacity (Capacity v)), Deallocate (grown_capacity (Capacity v))]) \<and>
    (\<not> init_throws tr a \<and> (\<exists>x\<in>set (take pos (elems v)). transfer_throws tr x) \<longrightarrow>
       (\<exists>v'. Emplace tr v pos a =
           Threw elem_exn v'
             (Allocate (grown_capacity (Capacity v)) # init_event tr (Slot pos) a
                # ev_seq (transfer_ctor tr) 0 (transferable tr (take pos (elems v)))
                @ ev_seq Dtor 0 (transferable tr (take pos (elems v)))
                @ [Dtor (Slot pos) (init_value a), Deallocate (grown_capacity (Capacity v))]) \<and>
          invar v' \<and> Size v' = Size v \<and> Capacity v' = Capacity v \<and>
          elems v' = map (left_behind tr) (transferable tr (take pos (elems v)))
                       @ drop (length (transferable tr (take pos (elems v)))) (elems v))) \<and>
    (\<not> init_throws tr a \<and> (\<forall>x\<in>set (take pos (elems v)). \<not> transfer_throws tr x) \<and>
     (\<exists>x\<in>set (drop pos (elems v)). transfer_throws tr x) \<longrightarrow>
       (\<exists>v'. Emplace tr v pos a =
           Threw elem_exn v'
             (Allocate (grown_capacity (Capacity v)) # init_event tr (Slot pos) a
                # ev_seq (transfer_ctor tr) 0 (take pos (elems v))
                @ (ev_seq (transfer_ctor tr) (Suc pos) (transferable tr (drop pos (elems v)))
                   @ ev_seq Dtor (Suc pos) (transferable tr (drop pos (elems v))))
                @ ev_seq Dtor 0 (take pos (elems v))
                @ [Dtor (Slot pos) (init_value a), Deallocate (grown_capacity (Capacity v))]) \<and>
          invar v' \<and> Size v' = Size v \<and> Capacity v' = Capacity v \<and>
          elems v' = map (left_behind tr) (take pos (elems v) @ transferable tr (drop pos (elems v)))
                       @ drop (length (transferable tr (drop pos (elems v))) + pos) (elems v))) \<and>
    (\<forall>e v' evs. Emplace tr v pos a = Threw e v' evs \<and>
        (is_copy_constructible tr \<and> \<not> is_nothrow_move_constructible tr \<or> (\<forall>x. \<not> move_throws tr x))
        \<longrightarrow> v' = v)"
proof -
  obtain xs k where v: "v = mk xs k"
    using invar_is_mk [OF assms(1)] by blast
  from assms(2) have k: "k = 0" by (simp add: v Size_def)
  from assms(3) have p: "pos < length xs" by (simp add: v Size_def)
  from assms(4) have al: "\<not> alloc_fails tr (grown_capacity (length xs))" by (simp add: v k)
  note E = Emplace_grow_at [OF p, of tr a]
  let ?p = "transferable tr (take pos xs)" and ?s = "transferable tr (drop pos xs)"
  have 1: "init_throws tr a \<longrightarrow>
       Emplace tr v pos a =
         Threw elem_exn v
           [Allocate (grown_capacity (Capacity v)), Deallocate (grown_capacity (Capacity v))]"
    using al by (simp add: v k E Let_def)
  have lp: "length (map (left_behind tr) ?p @ drop (length ?p) xs) = length xs"
    using length_transferable [of tr "take pos xs"] p by simp
  have 2: "\<not> init_throws tr a \<and> (\<exists>x\<in>set (take pos (elems v)). transfer_throws tr x) \<longrightarrow>
       (\<exists>v'. Emplace tr v pos a =
           Threw elem_exn v'
             (Allocate (grown_capacity (Capacity v)) # init_event tr (Slot pos) a
                # ev_seq (transfer_ctor tr) 0 (transferable tr (take pos (elems v)))
                @ ev_seq Dtor 0 (transferable tr (take pos (elems v)))
                @ [Dtor (Slot pos) (init_value a), Deallocate (grown_capacity (Capacity v))]) \<and>
          invar v' \<and> Size v' = Size v \<and> Capacity v' = Capacity v \<and>
          elems v' = map (left_behind tr) (transferable tr (take pos (elems v)))
                       @ drop (length (transferable tr (take pos (elems v)))) (elems v))"
    using al lp by (simp add: v k E Let_def not_transferable Size_def)
  have ls: "length (map (left_behind tr) (take pos xs @ ?s) @ drop (length ?s + pos) xs) = length xs"
    using length_transferable [of tr "drop pos xs"] p by simp
  have 3: "\<not> init_throws tr a \<and> (\<forall>x\<in>set (take pos (elems v)). \<not> transfer_throws tr x) \<and>
     (\<exists>x\<in>set (drop pos (elems v)). transfer_throws tr x) \<longrightarrow>
       (\<exists>v'. Emplace tr v pos a =
           Threw elem_exn v'
             (Allocate (grown_capacity (Capacity v)) # init_event tr (Slot pos) a
                # ev_seq (transfer_ctor tr) 0 (take pos (elems v))
                @ (ev_seq (transfer_ctor tr) (Suc pos) (transferable tr (drop pos (elems v)))
                   @ ev_seq Dtor (Suc pos) (transferable tr (drop pos (elems v))))
                @ ev_seq Dtor 0 (take pos (elems v))
                @ [Dtor (Slot pos) (init_value a), Deallocate (grown_capacity (Capacity v))]) \<and>
          invar v' \<and> Size v' = Size v \<and> Capacity v' = Capacity v \<and>
          elems v' = map (left_behind tr) (take pos (elems v) @ transferable tr (drop pos (elems v)))
                       @ drop (length (transferable tr (drop pos (elems v))) + pos) (elems v))"
    using al ls by (simp add: v k E Let_def not_transferable transferable_all Size_def)
  have 4: "\<forall>e v' evs. Emplace tr v pos a = Threw e v' evs \<and>
        (is_copy_constructible tr \<and> \<not> is_nothrow_move_constructible tr \<or> (\<forall>x. \<not> move_throws tr x))
        \<longrightarrow> v' = v"
  proof (intro allI impI, elim conjE)
    fix e v' evs
    assume t: "Emplace tr v pos a = Threw e v' evs"
      and c: "is_copy_constructible tr \<and> \<not> is_nothrow_move_constructible tr \<or> (\<forall>x. \<not> move_throws tr x)"
    show "v' = v"
    proof (cases "\<not> uses_move tr \<or> rvalue_copies tr")
      case True
      then have lb: "map (left_behind tr) ys = ys" for ys
        by (rule left_behind_id)
      have a: "?p @ drop (length ?p) xs = xs"
        using transferable_prefix [of tr "take pos xs"] length_transferable [of tr "take pos xs"] p
        by (metis append.assoc append_take_drop_id drop_append length_take min.absorb2 less_imp_le_nat diff_is_0_eq drop_0)
      have b: "take pos xs @ ?s @ drop (length ?s + pos) xs = xs"
        using transferable_prefix [of tr "drop pos xs"]
        by (metis append_take_drop_id drop_drop)
      from t show ?thesis
        using a b by (auto simp: v k E Let_def lb split: if_splits)
    next
      case False
      with c have "\<forall>x. \<not> move_throws tr x" by (auto simp: uses_move_def)
      with False have "\<forall>x. \<not> transfer_throws tr x"
        by (simp add: transfer_throws_def rvalue_throws_def)
      then have "?p = take pos xs" "?s = drop pos xs"
        by (simp_all add: transferable_all [symmetric])
      with t show ?thesis
        by (auto simp: v k E Let_def split: if_splits)
    qed
  qed
  from 1 2 3 4 show ?thesis by blast
qed


theorem Emplace_growth_failure_staged_witness:
  "invar \<lparr>data_v = [Live (5::nat), Live 13], capacity_v = 2, size_v = 2\<rparr> \<and>
   Emplace T_copying \<lparr>data_v = [Live 5, Live 13], capacity_v = 2, size_v = 2\<rparr> 1 (FromCopy 13) =
     Threw elem_exn \<lparr>data_v = [Live 5, Live 13], capacity_v = 2, size_v = 2\<rparr> [Allocate 4, Deallocate 4] \<and>
   Emplace T_copying \<lparr>data_v = [Live 5, Live 13], capacity_v = 2, size_v = 2\<rparr> 1 (FromArgs 7) =
     Threw elem_exn \<lparr>data_v = [Live 5, Live 13], capacity_v = 2, size_v = 2\<rparr>
       [Allocate 4, Ctor (Slot 1) 7, CopyCtor (Slot 0) 5, Dtor (Slot 0) 5, Dtor (Slot 1) 7,
        Deallocate 4] \<and>
   invar \<lparr>data_v = [Live (13::nat), Live 6], capacity_v = 2, size_v = 2\<rparr> \<and>
   Emplace T_copying \<lparr>data_v = [Live 13, Live 6], capacity_v = 2, size_v = 2\<rparr> 1 (FromArgs 7) =
     Threw elem_exn \<lparr>data_v = [Live 13, Live 6], capacity_v = 2, size_v = 2\<rparr>
       [Allocate 4, Ctor (Slot 1) 7, Dtor (Slot 1) 7, Deallocate 4]"
proof -
  let ?v = "\<lparr>data_v = [Live (5::nat), Live 13], capacity_v = 2, size_v = 2\<rparr>"
  let ?w = "\<lparr>data_v = [Live (13::nat), Live 6], capacity_v = 2, size_v = 2\<rparr>"
  have v: "invar ?v" "elems ?v = [5, 13]" "Size ?v = 2" "Capacity ?v = 2"
    by (simp_all add: invar_def elems_def map_filter_simps Size_def Capacity_def)
  have w: "invar ?w" "elems ?w = [13, 6]" "Size ?w = 2" "Capacity ?w = 2"
    by (simp_all add: invar_def elems_def map_filter_simps Size_def Capacity_def)
  have g: "grown_capacity 2 = 4" by (simp add: grown_capacity_def)
  have full: "Size ?v = Capacity ?v" "Size ?w = Capacity ?w"
    by (simp_all add: Size_def Capacity_def)
  have pos: "1 < Size ?v" "1 < Size ?w" by (simp_all add: Size_def)
  have al: "\<not> alloc_fails T_copying (grown_capacity (Capacity ?v))"
    "\<not> alloc_fails T_copying (grown_capacity (Capacity ?w))"
    by (simp_all add: T_copying_simps)
  have cp: "is_copy_constructible T_copying \<and> \<not> is_nothrow_move_constructible T_copying"
    by (simp add: T_copying_def)
  have tp: "transferable T_copying [5] = [5]" "transferable T_copying [13] = []"
    by (simp_all add: transferable_def T_copying_simps)
  note V = Emplace_growth_failure_staged [OF v(1) full(1) pos(1) al(1)]
  note W = Emplace_growth_failure_staged [OF w(1) full(2) pos(2) al(2)]
  have 1: "Emplace T_copying ?v 1 (FromCopy 13) = Threw elem_exn ?v [Allocate 4, Deallocate 4]"
    using V [of "FromCopy 13"] by (simp add: v g T_copying_simps)
  have "\<exists>v'. Emplace T_copying ?v 1 (FromArgs 7) =
     Threw elem_exn v'
       [Allocate 4, Ctor (Slot 1) 7, CopyCtor (Slot 0) 5, Dtor (Slot 0) 5, Dtor (Slot 1) 7,
        Deallocate 4]"
    using V [of "FromArgs 7"] by (auto simp: v g tp T_copying_simps)
  then obtain v' where 2: "Emplace T_copying ?v 1 (FromArgs 7) =
     Threw elem_exn v'
       [Allocate 4, Ctor (Slot 1) 7, CopyCtor (Slot 0) 5, Dtor (Slot 0) 5, Dtor (Slot 1) 7,
        Deallocate 4]" ..
  with V [of "FromArgs 7"] cp have v': "v' = ?v" by blast
  have "\<exists>w'. Emplace T_copying ?w 1 (FromArgs 7) =
     Threw elem_exn w' [Allocate 4, Ctor (Slot 1) 7, Dtor (Slot 1) 7, Deallocate 4]"
    using W [of "FromArgs 7"] by (auto simp: w g tp T_copying_simps)
  then obtain w' where 3: "Emplace T_copying ?w 1 (FromArgs 7) =
     Threw elem_exn w' [Allocate 4, Ctor (Slot 1) 7, Dtor (Slot 1) 7, Deallocate 4]" ..
  with W [of "FromArgs 7"] cp have w': "w' = ?w" by blast
  from v(1) w(1) 1 2 3 show ?thesis unfolding v' w' by blast
qed

section \<open>Copy assignment\<close>

text \<open>
  Claim C10. The self copy-assignment \<open>a = a\<close> is a no-op: the store, and with it the
  size, the capacity and every element of \<open>a\<close>, is unchanged, and the trace is
  empty: no element is copied, destroyed or constructed.
\<close>

theorem self_assignment_is_noop:
  "operator_assign tr a a st = Ok st []"
  by (simp add: operator_assign_def)


lemma copy_loop_reads_all:
  assumes "first \<le> i" and "i < first + count" and "read src i = Inl f"
  shows "uninitialized_copy_loop tr src first count dst current \<noteq> Ok r evs"
  using assms
proof (induction count arbitrary: first dst current evs)
  case 0
  then show ?case by simp
next
  case (Suc count)
  show ?case
  proof (cases "i = first")
    case True
    with Suc.prems(3) show ?thesis by simp
  next
    case False
    with Suc.prems have "Suc first \<le> i" "i < Suc first + count" by simp_all
    then have "uninitialized_copy_loop tr src (Suc first) count dst' current' \<noteq> Ok r evs'"
      for dst' current' evs'
      using Suc.IH Suc.prems(3) by blast
    then show ?thesis
      by (auto split: sum.splits outcome.splits)
  qed
qed

lemma copy_assign_loop_index:
  "copy_assign_loop tr dst src i count = Ok (d, j) evs \<Longrightarrow> j = i + count"
proof (induction count arbitrary: dst i evs)
  case 0
  then show ?case by simp
next
  case (Suc count)
  from Suc.prems obtain x evs' where
    "copy_assign_loop tr (dst[i := Live x]) src (Suc i) count = Ok (d, j) evs'"
    by (auto split: sum.splits outcome.splits if_splits)
  then have "j = Suc i + count" by (rule Suc.IH)
  then show ?case by simp
qed

lemma read_end_mk: "\<exists>f. read (data_v (mk ys j)) (length ys) = Inl f"
  by (cases j) (simp_all add: read_def nth_append)

text \<open>
  The loop of \<^verbatim>\<open>uninitialized_copy_n\<close> reads every slot of its source range, and
  the range that the copy assignment passes for a longer source ends one slot behind
  the last element of \<open>rhs\<close>. So whatever the element type and the contents, that
  branch of the assignment never returns normally from a well-formed source.
\<close>

lemma copy_assign_longer_source_never_returns:
  assumes "invar b" and "Size a < Size b" and "Size b \<le> Capacity a"
  shows "copy_assign_body tr a b \<noteq> Ok a' evs"
proof -
  obtain ys j where b: "b = mk ys j"
    using invar_is_mk [OF assms(1)] by blast
  obtain f where f: "read (data_v b) (size_v b) = Inl f"
    using read_end_mk [of ys j] by (auto simp: b)
  have n: "uninitialized_copy_n tr (data_v b) (size_v a + 1) (size_v b - size_v a) d (size_v a + 1)
      \<noteq> Ok d' evs'" for d d' evs'
  proof -
    have "uninitialized_copy_loop tr (data_v b) (size_v a + 1) (size_v b - size_v a) d (size_v a + 1)
        \<noteq> Ok r evs'" for r
      using assms(2) by (intro copy_loop_reads_all [OF _ _ f]) (simp_all add: Size_def)
    then show ?thesis
      by (auto simp: uninitialized_copy_n_def split: outcome.splits sum.splits)
  qed
  show ?thesis
  proof
    assume ok: "copy_assign_body tr a b = Ok a' evs"
    from assms(2,3) have c: "\<not> size_v b > Capacity a" "\<not> size_v b \<le> size_v a"
      by (simp_all add: Size_def)
    from ok c obtain d i evs1 where
      l: "copy_assign_loop tr (data_v a) (data_v b) 0 (size_v a) = Ok (d, i) evs1"
      by (auto simp: copy_assign_body_def split: outcome.splits)
    then have i: "i = size_v a"
      using copy_assign_loop_index by fastforce
    from ok c l n [of d] show False
      by (auto simp: copy_assign_body_def i split: outcome.splits)
  qed
qed

text \<open>
  Claim C1. For \<open>a.Size() < b.Size() \<le> a.Capacity()\<close> the assignment \<open>a = b\<close>
  should copy-construct the elements \<open>b[a.Size()], \<dots>, b[b.Size() - 1]\<close> into the
  tail of \<open>a\<close>. The source passes \<^verbatim>\<open>rhs.data_.GetAddress() + i + 1\<close> and
  \<^verbatim>\<open>data_.GetAddress() + i + 1\<close> with \<open>i = size_\<close>, one slot too far on both
  sides. With \<open>a = [1]\<close> of capacity 2 and \<open>b = [5, 6]\<close> of capacity 2 the first
  copy reads \<open>b\<close> at index 2, outside the allocation of \<open>b\<close>.
\<close>

theorem copy_assign_longer_source_out_of_bounds:
  "invar \<lparr>data_v = [Live 1, Raw], capacity_v = 2, size_v = 1\<rparr> \<and>
   invar \<lparr>data_v = [Live 5, Live 6], capacity_v = 2, size_v = 2\<rparr> \<and>
   copy_assign_body T_nothrow
     \<lparr>data_v = [Live 1, Raw], capacity_v = 2, size_v = 1\<rparr>
     \<lparr>data_v = [Live 5, Live 6], capacity_v = 2, size_v = 2\<rparr>
   = Fault (OutOfBounds 2)"
  by (simp add: copy_assign_body_def Capacity_def T_nothrow_def read_def uninitialized_copy_n_def invar_def)

text \<open>
  Claim C8. Every public operation should preserve the state invariant, the copy
  assignment in particular. With two well-formed vectors \<open>a = [1]\<close> and
  \<open>b = [5, 6]\<close>, both of capacity 3, the assignment \<open>a = b\<close> neither returns a
  well-formed vector nor throws: after the assignment of \<open>a[0]\<close> the first object it
  copy-constructs is read from the slot of \<open>b\<close> at index 2, which is raw, and is
  meant for the slot of \<open>a\<close> at index 2; the slot of \<open>a\<close> at index 1 is passed
  over.
\<close>

theorem copy_assign_longer_source_reads_raw_slot:
  "invar \<lparr>data_v = [Live 1, Raw, Raw], capacity_v = 3, size_v = 1\<rparr> \<and>
   invar \<lparr>data_v = [Live 5, Live 6, Raw], capacity_v = 3, size_v = 2\<rparr> \<and>
   copy_assign_body T_nothrow
     \<lparr>data_v = [Live 1, Raw, Raw], capacity_v = 3, size_v = 1\<rparr>
     \<lparr>data_v = [Live 5, Live 6, Raw], capacity_v = 3, size_v = 2\<rparr>
   = Fault (Uninitialized 2)"
  by (simp add: copy_assign_body_def Capacity_def T_nothrow_def read_def uninitialized_copy_n_def invar_def)

end
